theory Spec2Isabelle
  imports
    Complex_Main
    "HOL-Library.AList"
    "HOL-Library.Multiset"
    "HOL-Library.Char_ord"
    "HOL-Library.List_Lexorder"
begin

text \<open>
  The event-processing scripts of Helios: the chunk planner, the event
  aggregator and the merge of partial results (compute.py, worker.py,
  subprocess_parallel.py), the two execution strategies of the compute engine,
  and the job registry with the cancel endpoint (job_manager.py, main.py).
  Python functions are HOL functions of the same name; an exception is a value
  \<open>Inl e\<close>, a clock reading, a fresh identifier, the files and the output directory
  are parameters.
\<close>

section \<open>Exceptions\<close>

text \<open>
  The exceptions the modelled code can raise, by class. \<open>ValueError\<close> and
  \<open>FileNotFoundError\<close> carry the message where the source builds it.
  \<open>IsADirectoryError\<close>, \<open>PermissionError\<close> and \<open>UnicodeDecodeError\<close> are what
  \<open>open\<close> and the reading of a text file raise on a path that exists.
\<close>

datatype py_error =
    FileNotFoundError string
  | ZeroDivisionError
  | ValueError string
  | OverflowError
  | TypeError
  | KeyError
  | IsADirectoryError
  | PermissionError
  | UnicodeDecodeError

section \<open>Python floats\<close>

text \<open>
  A Python \<open>float\<close> is an IEEE 754 binary64 value. A finite value is the rational
  number it denotes; the two zeros are identified (Python's \<open>==\<close> does not tell them
  apart, and no code modelled here divides by a float zero without raising).
  Arithmetic is exact arithmetic on rationals followed by rounding to the nearest
  representable value, ties to the even significand; a result of magnitude
  \<open>2 ^ 1024\<close> or more overflows to an infinity. The type has a \<open>Fin x\<close> for every
  rational \<open>x\<close>, also for those that no float denotes; the operations return
  representable values only, and what is proved for all values of the type holds
  for the floats among them. Equality is that of HOL, so \<open>NaN = NaN\<close>.
\<close>

datatype pyfloat = Fin rat | PInf | NInf | NaN

function bit_length :: "int \<Rightarrow> int" where
  "bit_length n = (if n \<le> 0 then 0 else 1 + bit_length (n div 2))"
  by pat_completeness auto
termination
  by (relation "measure nat") auto

declare bit_length.simps [simp del]

definition pow2 :: "int \<Rightarrow> rat" where
  "pow2 e = (if 0 \<le> e then 2 ^ nat e else 1 / 2 ^ nat (- e))"

definition ilog2 :: "rat \<Rightarrow> int" where
  \<comment> \<open>for \<open>x > 0\<close>: the exponent \<open>e\<close> with \<open>2 ^ e \<le> x < 2 ^ (e + 1)\<close>\<close>
  "ilog2 x =
     (let (p, q) = quotient_of x;
          k = bit_length p - bit_length q
      in if pow2 k \<le> x then k else k - 1)"

definition round_half_even :: "rat \<Rightarrow> int" where
  "round_half_even y =
     (let f = \<lfloor>y\<rfloor>; d = y - of_int f
      in if d < 1 / 2 then f
         else if 1 / 2 < d then f + 1
         else if even f then f else f + 1)"

definition round64 :: "rat \<Rightarrow> pyfloat" where
  \<comment> \<open>53 bits of significand; exponents below \<open>-1022\<close> are subnormal\<close>
  "round64 x =
     (if x = 0 then Fin 0
      else
        let e = max (ilog2 \<bar>x\<bar>) (- 1022);
            q = pow2 (e - 52);
            r = of_int (round_half_even (x / q)) * q
        in if 2 ^ 1024 \<le> \<bar>r\<bar> then (if 0 < x then PInf else NInf) else Fin r)"

fun float_add :: "pyfloat \<Rightarrow> pyfloat \<Rightarrow> pyfloat" where
  "float_add NaN y = NaN"
| "float_add x NaN = NaN"
| "float_add PInf NInf = NaN"
| "float_add NInf PInf = NaN"
| "float_add PInf y = PInf"
| "float_add x PInf = PInf"
| "float_add NInf y = NInf"
| "float_add x NInf = NInf"
| "float_add (Fin a) (Fin b) = round64 (a + b)"

fun float_neg :: "pyfloat \<Rightarrow> pyfloat" where
  "float_neg (Fin a) = Fin (- a)"
| "float_neg PInf = NInf"
| "float_neg NInf = PInf"
| "float_neg NaN = NaN"

definition float_sub :: "pyfloat \<Rightarrow> pyfloat \<Rightarrow> pyfloat" where
  "float_sub x y = float_add x (float_neg y)"

fun float_lt :: "pyfloat \<Rightarrow> pyfloat \<Rightarrow> bool" where
  "float_lt NaN y = False"
| "float_lt x NaN = False"
| "float_lt x NInf = False"
| "float_lt PInf y = False"
| "float_lt NInf y = True"
| "float_lt x PInf = True"
| "float_lt (Fin a) (Fin b) = (a < b)"

text \<open>
  The conversion of an \<open>int\<close> operand to \<open>float\<close> rounds the same way and raises
  OverflowError where the result would not be finite.
\<close>

definition int_to_float :: "int \<Rightarrow> py_error + pyfloat" where
  "int_to_float n =
     (case round64 (of_int n) of Fin r \<Rightarrow> Inr (Fin r) | _ \<Rightarrow> Inl OverflowError)"

fun float_truediv :: "pyfloat \<Rightarrow> pyfloat \<Rightarrow> py_error + pyfloat" where
  "float_truediv x (Fin b) =
     (if b = 0 then Inl ZeroDivisionError
      else case x of
             Fin a \<Rightarrow> Inr (round64 (a / b))
           | PInf \<Rightarrow> Inr (if 0 < b then PInf else NInf)
           | NInf \<Rightarrow> Inr (if 0 < b then NInf else PInf)
           | NaN \<Rightarrow> Inr NaN)"
| "float_truediv x NaN = Inr NaN"
| "float_truediv (Fin a) y = Inr (Fin 0)"
| "float_truediv x y = Inr NaN"

definition float_truediv_int :: "pyfloat \<Rightarrow> int \<Rightarrow> py_error + pyfloat" where
  \<comment> \<open>\<open>x / n\<close> for a float \<open>x\<close> and an int \<open>n\<close>\<close>
  "float_truediv_int x n =
     (case int_to_float n of Inl e \<Rightarrow> Inl e | Inr d \<Rightarrow> float_truediv x d)"

definition float_sub_int :: "pyfloat \<Rightarrow> int \<Rightarrow> py_error + pyfloat" where
  \<comment> \<open>\<open>x - n\<close> for a float \<open>x\<close> and an int \<open>n\<close>\<close>
  "float_sub_int x n =
     (case int_to_float n of Inl e \<Rightarrow> Inl e | Inr d \<Rightarrow> Inr (float_sub x d))"

fun float_gt_int :: "pyfloat \<Rightarrow> int \<Rightarrow> bool" where
  \<comment> \<open>\<open>x > n\<close> for a float \<open>x\<close> and an int \<open>n\<close>; the comparison is exact\<close>
  "float_gt_int (Fin a) n = (of_int n < a)"
| "float_gt_int PInf n = True"
| "float_gt_int NInf n = False"
| "float_gt_int NaN n = False"

text \<open>
  The builtins \<open>max(a, b)\<close> and \<open>min(a, b)\<close> keep the first argument unless the
  second is strictly greater, respectively smaller.
\<close>

definition py_max :: "pyfloat \<Rightarrow> pyfloat \<Rightarrow> pyfloat" where
  "py_max a b = (if float_lt a b then b else a)"

definition py_min :: "pyfloat \<Rightarrow> pyfloat \<Rightarrow> pyfloat" where
  "py_min a b = (if float_lt b a then b else a)"

section \<open>Counting dictionaries\<close>

text \<open>
  A \<open>dict\<close> from keys to counts, in insertion order: an association list with
  distinct keys. A key is what \<open>csv.DictReader\<close> gives for a cell: a string, or
  \<open>None\<close> for a cell that its row lacks. \<open>d[k] += c\<close> on a \<open>defaultdict(int)\<close>
  reads 0 for a missing key and stores the sum, in place for a present key and
  at the end for a new one. Two dictionaries are equal in Python when they hold
  the same items whatever the order, that is when their \<open>map_of\<close> agree.
\<close>

type_synonym key = "string option"

type_synonym counts = "(key \<times> int) list"

definition count_of :: "counts \<Rightarrow> key \<Rightarrow> int" where
  "count_of d k = (case map_of d k of None \<Rightarrow> 0 | Some v \<Rightarrow> v)"

definition incr :: "key \<Rightarrow> int \<Rightarrow> counts \<Rightarrow> counts" where
  "incr k c d = AList.update k (count_of d k + c) d"

section \<open>EventProcessor (compute.py and worker.py)\<close>

text \<open>
  A data row as \<open>csv.DictReader\<close> yields it, a dictionary from the column
  names of the header line to the cells of the row, with the three columns the
  code reads. A column is \<open>NoColumn\<close> when the header does not name it, so that
  \<open>row[name]\<close> raises KeyError; it is \<open>NoCell\<close> when the row ends before it, where
  the reader stores \<open>None\<close>; and it is \<open>Cell v\<close> for a cell that is there. For
  \<open>status\<close> and \<open>sensor_id\<close> the content \<open>v\<close> is the text of the cell. For
  \<open>energy\<close> it is what \<open>float\<close> makes of the text: \<open>Some x\<close> for the float \<open>x\<close>,
  \<open>None\<close> where \<open>float\<close> raises ValueError; the model's message for that stops
  before the text. \<open>float(None)\<close> raises TypeError.
\<close>

datatype 'a cell = NoColumn | NoCell | Cell 'a

datatype row =
  Row (row_status: "string cell") (row_sensor_id: "string cell")
      (row_energy: "pyfloat option cell")

definition get_item :: "string cell \<Rightarrow> py_error + key" where
  \<comment> \<open>\<open>row[name]\<close>\<close>
  "get_item c = (case c of NoColumn \<Rightarrow> Inl KeyError | NoCell \<Rightarrow> Inr None | Cell v \<Rightarrow> Inr (Some v))"

definition float_of_cell :: "pyfloat option cell \<Rightarrow> py_error + pyfloat" where
  \<comment> \<open>\<open>float(row['energy'])\<close>\<close>
  "float_of_cell c =
     (case c of
        NoColumn \<Rightarrow> Inl KeyError
      | NoCell \<Rightarrow> Inl TypeError
      | Cell None \<Rightarrow> Inl (ValueError ''could not convert string to float'')
      | Cell (Some x) \<Rightarrow> Inr x)"

text \<open>
  The state of an EventProcessor, and the five keys that every result dictionary
  shares. The key \<open>'total'\<close> is the field \<open>total_events\<close> (\<open>total\<close> is a constant of
  HOL).
\<close>

record stats =
  total_events :: int
  status_counts :: counts
  sensor_counts :: counts
  energy_sum :: pyfloat
  high_energy_events :: int

text \<open>
  A result dictionary: the keys above and \<open>avg_energy\<close>; the other keys are present
  in some dictionaries only (\<open>chunk_id\<close> from the pool worker, \<open>worker_id\<close> and
  \<open>processing_time\<close> from worker.py, \<open>chunks_processed\<close> from the merge, and the
  keys \<open>'method'\<close> and \<open>'num_workers'\<close> from the engine, here \<open>res_method\<close> and
  \<open>res_num_workers\<close>).
\<close>

record result_dict = stats +
  avg_energy :: pyfloat
  chunk_id :: "int option"
  worker_id :: "int option"
  processing_time :: "pyfloat option"
  chunks_processed :: "int option"
  res_method :: "string option"
  res_num_workers :: "int option"

definition new_processor :: stats where
  "new_processor =
     \<lparr>total_events = 0, status_counts = [], sensor_counts = [],
      energy_sum = Fin 0, high_energy_events = 0\<rparr>"

definition process_event :: "stats \<Rightarrow> row \<Rightarrow> py_error + stats" where
  "process_event self r =
     (let self = self\<lparr>total_events := total_events self + 1\<rparr>
      in case get_item (row_status r) of
           Inl e \<Rightarrow> Inl e
         | Inr status \<Rightarrow>
             let self = self\<lparr>status_counts := incr status 1 (status_counts self)\<rparr>
             in case get_item (row_sensor_id r) of
                  Inl e \<Rightarrow> Inl e
                | Inr sensor_id \<Rightarrow>
                    let self = self\<lparr>sensor_counts := incr sensor_id 1 (sensor_counts self)\<rparr>
                    in case float_of_cell (row_energy r) of
                         Inl e \<Rightarrow> Inl e
                       | Inr energy \<Rightarrow>
                           let self = self\<lparr>energy_sum := float_add (energy_sum self) energy\<rparr>
                           in Inr (if float_gt_int energy 100
                                   then self\<lparr>high_energy_events :=
                                               high_energy_events self + 1\<rparr>
                                   else self))"

definition average :: "pyfloat \<Rightarrow> int \<Rightarrow> py_error + pyfloat" where
  \<comment> \<open>\<open>energy_sum / total if total > 0 else 0\<close>\<close>
  "average s n = (if 0 < n then float_truediv_int s n else Inr (Fin 0))"

definition get_results :: "stats \<Rightarrow> py_error + result_dict" where
  "get_results self =
     (case average (energy_sum self) (total_events self) of
        Inl e \<Rightarrow> Inl e
      | Inr avg \<Rightarrow>
          Inr \<lparr>total_events = total_events self,
               status_counts = status_counts self,
               sensor_counts = sensor_counts self,
               energy_sum = energy_sum self,
               high_energy_events = high_energy_events self,
               avg_energy = avg,
               chunk_id = None, worker_id = None, processing_time = None,
               chunks_processed = None, res_method = None, res_num_workers = None\<rparr>)"

text \<open>
  The loop \<open>for i, row in enumerate(reader)\<close> of a worker: rows before
  \<open>start_row\<close> are skipped, the loop breaks at \<open>start_row + num_rows\<close>, and an
  exception of \<open>process_event\<close> ends the worker.
\<close>

fun process_rows :: "int \<Rightarrow> int \<Rightarrow> int \<Rightarrow> row list \<Rightarrow> stats \<Rightarrow> py_error + stats" where
  "process_rows start_row num_rows i [] processor = Inr processor"
| "process_rows start_row num_rows i (r # rs) processor =
     (if i < start_row then process_rows start_row num_rows (i + 1) rs processor
      else if start_row + num_rows \<le> i then Inr processor
      else case process_event processor r of
             Inl e \<Rightarrow> Inl e
           | Inr processor' \<Rightarrow> process_rows start_row num_rows (i + 1) rs processor')"

text \<open>
  An input file that reads as text: the number of physical lines
  (\<open>count_data_rows\<close> counts lines) and the data rows the CSV reader yields.
\<close>

record csv_file =
  line_count :: nat
  data_rows :: "row list"

text \<open>
  What is at a path that exists: a file that reads as text, or something on
  which \<open>open(path, 'r')\<close> or the reading of the lines raises the given exception
  (IsADirectoryError for a directory, PermissionError, UnicodeDecodeError for
  bytes that do not decode). The engine and every worker open the path
  themselves.
\<close>

datatype path_entry = TextFile csv_file | Unreadable py_error

definition run_processor :: "path_entry \<Rightarrow> int \<Rightarrow> int \<Rightarrow> py_error + result_dict" where
  \<comment> \<open>the part that \<open>process_chunk_worker\<close> and worker.py's \<open>main\<close> have in common\<close>
  "run_processor file_path start_row num_rows =
     (case file_path of
        Unreadable e \<Rightarrow> Inl e
      | TextFile f \<Rightarrow>
          (case process_rows start_row num_rows 0 (data_rows f) new_processor of
             Inl e \<Rightarrow> Inl e
           | Inr processor \<Rightarrow> get_results processor))"

definition process_chunk_worker ::
  "path_entry \<times> int \<times> int \<times> int \<Rightarrow> py_error + result_dict" where
  "process_chunk_worker args =
     (case args of (file_path, start_row, num_rows, cid) \<Rightarrow>
        (case run_processor file_path start_row num_rows of
           Inl e \<Rightarrow> Inl e
         | Inr results \<Rightarrow> Inr (results\<lparr>chunk_id := Some cid\<rparr>)))"

text \<open>
  worker.py, \<open>main\<close>: the value is the dictionary written to the output file, or
  the exception that ends the process before anything is written. \<open>elapsed\<close> is
  the measured running time.
\<close>

definition worker_main ::
  "path_entry \<Rightarrow> int \<Rightarrow> int \<Rightarrow> int \<Rightarrow> pyfloat \<Rightarrow> py_error + result_dict" where
  "worker_main input_file start_row num_rows wid elapsed =
     (case run_processor input_file start_row num_rows of
        Inl e \<Rightarrow> Inl e
      | Inr results \<Rightarrow>
          Inr (results\<lparr>worker_id := Some wid, processing_time := Some elapsed\<rparr>))"

section \<open>Merging (compute.py, merge_results)\<close>

definition merge_counts :: "counts \<Rightarrow> counts \<Rightarrow> counts" where
  \<comment> \<open>\<open>for key, count in items: merged[key] += count\<close>\<close>
  "merge_counts merged items = foldl (\<lambda>m (k, c). incr k c m) merged items"

definition merge_step :: "stats \<Rightarrow> result_dict \<Rightarrow> stats" where
  "merge_step merged result =
     \<lparr>total_events = total_events merged + total_events result,
      status_counts = merge_counts (status_counts merged) (status_counts result),
      sensor_counts = merge_counts (sensor_counts merged) (sensor_counts result),
      energy_sum = float_add (energy_sum merged) (energy_sum result),
      high_energy_events = high_energy_events merged + high_energy_events result\<rparr>"

definition merge_loop :: "result_dict list \<Rightarrow> stats" where
  "merge_loop partial_results = foldl merge_step new_processor partial_results"

definition merge_results :: "result_dict list \<Rightarrow> py_error + result_dict" where
  "merge_results partial_results =
     (let merged = merge_loop partial_results
      in case average (energy_sum merged) (total_events merged) of
           Inl e \<Rightarrow> Inl e
         | Inr avg \<Rightarrow>
             Inr \<lparr>total_events = total_events merged,
                  status_counts = status_counts merged,
                  sensor_counts = sensor_counts merged,
                  energy_sum = energy_sum merged,
                  high_energy_events = high_energy_events merged,
                  avg_energy = avg,
                  chunk_id = None, worker_id = None, processing_time = None,
                  chunks_processed = Some (int (length partial_results)),
                  res_method = None, res_num_workers = None\<rparr>)"

section \<open>Chunk planning (compute.py, split_into_chunks)\<close>

text \<open>
  Python integers are unbounded: \<open>int\<close>. \<open>//\<close> is floor division, as \<open>div\<close> on
  \<open>int\<close> is, and raises ZeroDivisionError for a zero divisor. \<open>range(num_workers)\<close>
  is \<open>[0..num_workers - 1]\<close>, empty when \<open>num_workers \<le> 0\<close>.
\<close>

definition split_into_chunks :: "int \<Rightarrow> int \<Rightarrow> py_error + (int \<times> int) list" where
  "split_into_chunks total_rows num_workers =
     (if num_workers = 0 then Inl ZeroDivisionError
      else
        let chunk_size = total_rows div num_workers
        in Inr (map (\<lambda>i. let start_row = i * chunk_size
                            in (start_row,
                                if i = num_workers - 1 then total_rows - start_row
                                else chunk_size))
                    [0..num_workers - 1]))"

section \<open>ComputeEngine (compute.py)\<close>

definition count_data_rows :: "path_entry \<Rightarrow> py_error + int" where
  \<comment> \<open>\<open>with open(file_path, 'r') as f: return sum(1 for _ in f) - 1\<close>\<close>
  "count_data_rows entry =
     (case entry of
        Unreadable e \<Rightarrow> Inl e
      | TextFile f \<Rightarrow> Inr (int (line_count f) - 1))"

text \<open>
  \<open>pool.map\<close> returns the workers' results in the order of the arguments and
  re-raises a worker's exception; where several workers raise, the model takes the
  first in argument order.
\<close>

fun pool_map :: "('a \<Rightarrow> py_error + 'b) \<Rightarrow> 'a list \<Rightarrow> py_error + 'b list" where
  "pool_map f [] = Inr []"
| "pool_map f (x # xs) =
     (case f x of
        Inl e \<Rightarrow> Inl e
      | Inr y \<Rightarrow> (case pool_map f xs of Inl e \<Rightarrow> Inl e | Inr ys \<Rightarrow> Inr (y # ys)))"

definition label :: "string \<Rightarrow> int \<Rightarrow> py_error + result_dict \<Rightarrow> py_error + result_dict" where
  \<comment> \<open>\<open>final_results['method'] = m; final_results['num_workers'] = n\<close>\<close>
  "label m n res =
     (case res of
        Inl e \<Rightarrow> Inl e
      | Inr final_results \<Rightarrow>
          Inr (final_results\<lparr>res_method := Some m, res_num_workers := Some n\<rparr>))"

text \<open>
  \<open>_process_multiprocessing\<close>, with \<open>progress_callback\<close> at its default \<open>None\<close>.
  \<open>Pool(processes=n)\<close> raises ValueError for \<open>n < 1\<close>.
\<close>

definition process_multiprocessing ::
  "path_entry \<Rightarrow> (int \<times> int) list \<Rightarrow> int \<Rightarrow> py_error + result_dict" where
  "process_multiprocessing input_file chunks num_workers =
     (let worker_args =
            map (\<lambda>(i, (start, count)). (input_file, start, count, int i)) (enumerate 0 chunks)
      in if num_workers < 1
         then Inl (ValueError ''Number of processes must be at least 1'')
         else case pool_map process_chunk_worker worker_args of
                Inl e \<Rightarrow> Inl e
              | Inr partial_results \<Rightarrow>
                  label ''multiprocessing'' num_workers (merge_results partial_results))"

text \<open>
  What \<open>json.load\<close> reads from what \<open>json.dump\<close> wrote. The key of a JSON object
  is a string: \<open>json.dump\<close> writes the key \<open>None\<close> as \<open>null\<close>, and \<open>json.load\<close>
  reads the text back as the string \<open>'null'\<close>. Where the dictionary written has
  both keys, the object has the name \<open>null\<close> twice, and \<open>json.load\<close> keeps the
  place of the first and the value of the last. Integers, floats (also the
  infinities and NaN, which \<open>json\<close> writes and reads by default), strings and the
  fixed keys of a result dictionary are read back as they were written.
\<close>

definition json_key :: "key \<Rightarrow> key" where
  "json_key k = (case k of None \<Rightarrow> Some ''null'' | Some s \<Rightarrow> Some s)"

definition json_counts :: "counts \<Rightarrow> counts" where
  "json_counts d = foldl (\<lambda>m (k, c). AList.update (json_key k) c m) [] d"

definition json_round_trip :: "result_dict \<Rightarrow> result_dict" where
  "json_round_trip results =
     results\<lparr>status_counts := json_counts (status_counts results),
             sensor_counts := json_counts (sensor_counts results)\<rparr>"

text \<open>
  The output directory \<open>data/processed/chunks\<close> maps the index \<open>i\<close> to what
  \<open>json.load\<close> reads from \<open>chunk_i.json\<close> when that file exists. The directory is
  not emptied before a run, so it is a parameter. A worker that ends normally
  overwrites its file with what \<open>json.dump\<close> writes; a worker that raises leaves
  the directory as it was. \<open>elapsed i\<close> is the running time worker \<open>i\<close> measures.
  The worker processes are taken to start: \<open>python3\<close> and \<open>worker.py\<close> are found
  from the working directory and the output directory can be written.
\<close>

type_synonym chunk_dir = "nat \<Rightarrow> result_dict option"

definition run_workers ::
  "chunk_dir \<Rightarrow> (nat \<Rightarrow> pyfloat) \<Rightarrow> path_entry \<Rightarrow> (int \<times> int) list \<Rightarrow> chunk_dir" where
  "run_workers output_dir elapsed input_file chunks =
     foldl (\<lambda>d (i, (start, count)).
              case worker_main input_file start count (int i) (elapsed i) of
                Inl e \<Rightarrow> d
              | Inr results \<Rightarrow> d(i \<mapsto> json_round_trip results))
           output_dir (enumerate 0 chunks)"

fun collect_results :: "chunk_dir \<Rightarrow> nat list \<Rightarrow> result_dict list" where
  \<comment> \<open>\<open>if output_file.exists(): partial_results.append(json.load(f))\<close>\<close>
  "collect_results d [] = []"
| "collect_results d (i # is) =
     (case d i of
        None \<Rightarrow> collect_results d is
      | Some results \<Rightarrow> results # collect_results d is)"

definition process_subprocess ::
  "chunk_dir \<Rightarrow> (nat \<Rightarrow> pyfloat) \<Rightarrow> path_entry \<Rightarrow> (int \<times> int) list \<Rightarrow> int
     \<Rightarrow> py_error + result_dict" where
  "process_subprocess output_dir elapsed input_file chunks num_workers =
     (let d = run_workers output_dir elapsed input_file chunks;
          partial_results = collect_results d [0..<length chunks]
      in label ''subprocess'' num_workers (merge_results partial_results))"

text \<open>
  \<open>process_events\<close>, with \<open>progress_callback\<close> at its default \<open>None\<close>: \<open>files\<close>
  maps a path to what is there, when the path exists. The rows are counted and
  the chunks are planned before the method is looked at. The job request of
  main.py declares \<open>num_workers\<close> an \<open>Optional[int]\<close> and \<open>method\<close> an
  \<open>Optional[str]\<close>, and what it holds reaches \<open>process_events\<close> as it is, so each
  may be \<open>None\<close>: \<open>total_rows // None\<close> in \<open>split_into_chunks\<close> raises TypeError,
  and \<open>None\<close> equals neither method name and is formatted as \<open>None\<close>. Memory is
  taken to suffice for the list of chunks.
\<close>

definition format_method :: "string option \<Rightarrow> string" where
  \<comment> \<open>\<open>f"{method}"\<close>\<close>
  "format_method meth = (case meth of None \<Rightarrow> ''None'' | Some m \<Rightarrow> m)"

definition process_events ::
  "(string \<Rightarrow> path_entry option) \<Rightarrow> chunk_dir \<Rightarrow> (nat \<Rightarrow> pyfloat)
     \<Rightarrow> string \<Rightarrow> int option \<Rightarrow> string option \<Rightarrow> py_error + result_dict" where
  "process_events files output_dir elapsed input_file num_workers meth =
     (case files input_file of
        None \<Rightarrow> Inl (FileNotFoundError (''Input file not found: '' @ input_file))
      | Some entry \<Rightarrow>
          (case count_data_rows entry of
             Inl e \<Rightarrow> Inl e
           | Inr total_rows \<Rightarrow>
               (case num_workers of
                  None \<Rightarrow> Inl TypeError
                | Some n \<Rightarrow>
                    (case split_into_chunks total_rows n of
                       Inl e \<Rightarrow> Inl e
                     | Inr chunks \<Rightarrow>
                         if meth = Some ''multiprocessing''
                         then process_multiprocessing entry chunks n
                         else if meth = Some ''subprocess''
                         then process_subprocess output_dir elapsed entry chunks n
                         else Inl (ValueError (''Unknown method: '' @ format_method meth))))))"

section \<open>The launcher's merge (subprocess_parallel.py, merge_results)\<close>

text \<open>
  The standalone launcher merges the output files of its workers itself. Its
  loop over \<open>range(num_workers)\<close> prints a warning and continues where
  \<open>chunk_i.json\<close> does not exist, and otherwise does what the loop of
  compute.py does, adds \<open>result['processing_time']\<close>, a KeyError where the key
  is absent, and counts the file. The value is the merged dictionary and its
  \<open>'total_processing_time'\<close>.
\<close>

fun sp_merge_loop ::
  "chunk_dir \<Rightarrow> nat list \<Rightarrow> stats \<times> int \<times> pyfloat \<Rightarrow> py_error + stats \<times> int \<times> pyfloat" where
  "sp_merge_loop output_dir [] acc = Inr acc"
| "sp_merge_loop output_dir (i # is) (merged, chunks, time) =
     (case output_dir i of
        None \<Rightarrow> sp_merge_loop output_dir is (merged, chunks, time)
      | Some result \<Rightarrow>
          (case processing_time result of
             None \<Rightarrow> Inl KeyError
           | Some t \<Rightarrow>
               sp_merge_loop output_dir is
                 (merge_step merged result, chunks + 1, float_add time t)))"

definition sp_merge_results :: "chunk_dir \<Rightarrow> int \<Rightarrow> py_error + result_dict \<times> pyfloat" where
  "sp_merge_results output_dir num_workers =
     (case sp_merge_loop output_dir [0..<nat num_workers] (new_processor, 0, Fin 0) of
        Inl e \<Rightarrow> Inl e
      | Inr (merged, chunks, time) \<Rightarrow>
          (case average (energy_sum merged) (total_events merged) of
             Inl e \<Rightarrow> Inl e
           | Inr avg \<Rightarrow>
               Inr (\<lparr>total_events = total_events merged,
                     status_counts = status_counts merged,
                     sensor_counts = sensor_counts merged,
                     energy_sum = energy_sum merged,
                     high_energy_events = high_energy_events merged,
                     avg_energy = avg,
                     chunk_id = None, worker_id = None, processing_time = None,
                     chunks_processed = Some chunks,
                     res_method = None, res_num_workers = None\<rparr>, time)))"

section \<open>JobManager (job_manager.py)\<close>

text \<open>
  \<open>JobStatus\<close> is a string enumeration; its members compare equal to the strings
  \<open>'pending'\<close>, \<open>'running'\<close>, \<open>'completed'\<close>, \<open>'failed'\<close>, \<open>'cancelled'\<close> that main.py
  passes.
\<close>

datatype JobStatus = PENDING | RUNNING | COMPLETED | FAILED | CANCELLED

text \<open>
  A job dictionary. The fields carry the prefix \<open>job_\<close> (the key \<open>'id'\<close> is
  \<open>job_ident\<close>). Times are the strings \<open>datetime.now().isoformat()\<close> returns.
\<close>

record job =
  job_ident :: string
  job_input_file :: string
  job_num_workers :: int
  job_method :: string
  job_status :: JobStatus
  job_progress :: pyfloat
  job_created_at :: string
  job_started_at :: "string option"
  job_completed_at :: "string option"
  job_results :: "result_dict option"
  job_error :: "string option"

text \<open>
  \<open>self.jobs\<close>: a dictionary in insertion order, an association list with distinct
  keys. The lock is not modelled: every operation runs alone. The clock reading
  \<open>now\<close> and the fresh identifier are parameters.
\<close>

type_synonym job_store = "(string \<times> job) list"

definition has_job :: "job_store \<Rightarrow> string \<Rightarrow> bool" where
  \<comment> \<open>\<open>job_id in self.jobs\<close>\<close>
  "has_job jobs job_id = (map_of jobs job_id \<noteq> None)"

definition create_job ::
  "job_store \<Rightarrow> string \<Rightarrow> string \<Rightarrow> string \<Rightarrow> int \<Rightarrow> string \<Rightarrow> string \<times> job_store" where
  "create_job jobs job_id now input_file num_workers meth =
     (job_id,
      AList.update job_id
        \<lparr>job_ident = job_id, job_input_file = input_file, job_num_workers = num_workers,
         job_method = meth, job_status = PENDING, job_progress = Fin 0,
         job_created_at = now, job_started_at = None, job_completed_at = None,
         job_results = None, job_error = None\<rparr>
        jobs)"

definition get_job :: "job_store \<Rightarrow> string \<Rightarrow> job option" where
  "get_job jobs job_id = map_of jobs job_id"

definition falsy :: "string option \<Rightarrow> bool" where
  \<comment> \<open>\<open>not x\<close> for \<open>x\<close> a string or \<open>None\<close>\<close>
  "falsy x = (x = None \<or> x = Some [])"

definition set_status :: "JobStatus \<Rightarrow> string \<Rightarrow> job \<Rightarrow> job" where
  \<comment> \<open>the body of \<open>update_job_status\<close> on the job's dictionary\<close>
  "set_status status now j =
     (let j = j\<lparr>job_status := status\<rparr>
      in if status = RUNNING \<and> falsy (job_started_at j)
         then j\<lparr>job_started_at := Some now\<rparr>
         else if status \<in> set [COMPLETED, FAILED, CANCELLED]
         then j\<lparr>job_completed_at := Some now\<rparr>
         else j)"

definition update_job_status :: "job_store \<Rightarrow> string \<Rightarrow> JobStatus \<Rightarrow> string \<Rightarrow> job_store" where
  "update_job_status jobs job_id status now =
     (if has_job jobs job_id then AList.map_entry job_id (set_status status now) jobs
      else jobs)"

definition update_progress :: "job_store \<Rightarrow> string \<Rightarrow> pyfloat \<Rightarrow> job_store" where
  "update_progress jobs job_id progress =
     (if has_job jobs job_id
      then AList.map_entry job_id
             (\<lambda>j. j\<lparr>job_progress := py_min (py_max progress (Fin 0)) (Fin 1)\<rparr>) jobs
      else jobs)"

definition complete_job :: "job_store \<Rightarrow> string \<Rightarrow> result_dict \<Rightarrow> string \<Rightarrow> job_store" where
  "complete_job jobs job_id results now =
     (if has_job jobs job_id
      then AList.map_entry job_id
             (\<lambda>j. j\<lparr>job_status := COMPLETED, job_results := Some results,
                     job_progress := Fin 1, job_completed_at := Some now\<rparr>) jobs
      else jobs)"

definition fail_job :: "job_store \<Rightarrow> string \<Rightarrow> string \<Rightarrow> string \<Rightarrow> job_store" where
  "fail_job jobs job_id err now =
     (if has_job jobs job_id
      then AList.map_entry job_id
             (\<lambda>j. j\<lparr>job_status := FAILED, job_error := Some err,
                     job_completed_at := Some now\<rparr>) jobs
      else jobs)"

text \<open>
  \<open>list_jobs\<close>. \<open>list.sort(key, reverse=True)\<close> is stable: it sorts the reversed
  list in ascending order and reverses the result. \<open>if limit:\<close> is false for
  \<open>None\<close> and for 0; \<open>jobs[:limit]\<close> with a negative limit drops that many jobs
  from the end.
\<close>

definition slice_to :: "'a list \<Rightarrow> int \<Rightarrow> 'a list" where
  \<comment> \<open>\<open>xs[:n]\<close>\<close>
  "slice_to xs n = (if 0 \<le> n then take (nat n) xs else take (length xs - nat (- n)) xs)"

definition list_jobs :: "job_store \<Rightarrow> JobStatus option \<Rightarrow> int option \<Rightarrow> job list" where
  "list_jobs store status limit =
     (let jobs = map snd store;
          jobs = (case status of
                    None \<Rightarrow> jobs
                  | Some s \<Rightarrow> filter (\<lambda>j. job_status j = s) jobs);
          jobs = rev (sort_key job_created_at (rev jobs))
      in case limit of
           None \<Rightarrow> jobs
         | Some n \<Rightarrow> if n \<noteq> 0 then slice_to jobs n else jobs)"

text \<open>
  \<open>clear_completed_jobs\<close>. \<open>now_ts\<close> is \<open>datetime.now().timestamp()\<close> and
  \<open>timestamp s\<close> is \<open>datetime.fromisoformat(s).timestamp()\<close>;
  \<open>fromisoformat(None)\<close> raises TypeError. The jobs are deleted after the loop,
  so an exception in the loop leaves the store as it was.
\<close>

fun jobs_to_remove ::
  "(string \<Rightarrow> pyfloat) \<Rightarrow> pyfloat \<Rightarrow> job_store \<Rightarrow> py_error + string list" where
  "jobs_to_remove timestamp cutoff_time [] = Inr []"
| "jobs_to_remove timestamp cutoff_time ((job_id, j) # rest) =
     (if job_status j \<in> set [COMPLETED, FAILED]
      then case job_completed_at j of
             None \<Rightarrow> Inl TypeError
           | Some s \<Rightarrow>
               (case jobs_to_remove timestamp cutoff_time rest of
                  Inl e \<Rightarrow> Inl e
                | Inr ids \<Rightarrow>
                    Inr (if float_lt (timestamp s) cutoff_time then job_id # ids else ids))
      else jobs_to_remove timestamp cutoff_time rest)"

definition clear_completed_jobs ::
  "(string \<Rightarrow> pyfloat) \<Rightarrow> pyfloat \<Rightarrow> job_store \<Rightarrow> int \<Rightarrow> py_error + int \<times> job_store" where
  "clear_completed_jobs timestamp now_ts jobs older_than_hours =
     (case float_sub_int now_ts (older_than_hours * 3600) of
        Inl e \<Rightarrow> Inl e
      | Inr cutoff_time \<Rightarrow>
          (case jobs_to_remove timestamp cutoff_time jobs of
             Inl e \<Rightarrow> Inl e
           | Inr ids \<Rightarrow> Inr (int (length ids), foldl (\<lambda>js job_id. AList.delete job_id js) jobs ids)))"

section \<open>The cancel endpoint (main.py, cancel_job)\<close>

datatype http_error = HTTPException int

definition cancel_job :: "job_store \<Rightarrow> string \<Rightarrow> string \<Rightarrow> http_error + job_store" where
  "cancel_job jobs job_id now =
     (case get_job jobs job_id of
        None \<Rightarrow> Inl (HTTPException 404)
      | Some j \<Rightarrow>
          if job_status j \<notin> set [PENDING, RUNNING] then Inl (HTTPException 400)
          else Inr (update_job_status jobs job_id CANCELLED now))"

section \<open>The merge as the specification words it\<close>

text \<open>
  The per-key sum of a collection of count dictionaries: a key is present when
  some dictionary has it, and its value is the sum of the counts stored under
  it.
\<close>

definition key_total :: "counts list \<Rightarrow> key \<Rightarrow> int" where
  "key_total ds k = (\<Sum>d\<leftarrow>ds. \<Sum>(k', c)\<leftarrow>d. if k' = k then c else 0)"

definition sum_counts :: "counts list \<Rightarrow> key \<Rightarrow> int option" where
  "sum_counts ds k =
     (if k \<in> (\<Union>d\<in>set ds. fst ` set d) then Some (key_total ds k) else None)"

text \<open>The integer content of a result dictionary, the dictionaries up to order.\<close>

definition count_fields ::
  "result_dict \<Rightarrow> int \<times> (key \<Rightarrow> int option) \<times> (key \<Rightarrow> int option) \<times> int" where
  "count_fields r =
     (total_events r, map_of (status_counts r), map_of (sensor_counts r),
      high_energy_events r)"

text \<open>
  A grouping of partial results: a partial result, or the merge of the results
  of several groupings. \<open>parts\<close> lists the partial results of a grouping from
  left to right. \<open>merge_grouping\<close> merges a grouping from the inside out with
  \<open>merge_results\<close>, and \<open>merge_groupings\<close> lists the results of several groupings;
  an exception of an inner merge ends the whole.
\<close>

datatype grouping = Part result_dict | Merged "grouping list"

fun parts :: "grouping \<Rightarrow> result_dict list" where
  "parts (Part p) = [p]"
| "parts (Merged gs) = concat (map parts gs)"

fun merge_grouping :: "grouping \<Rightarrow> py_error + result_dict"
  and merge_groupings :: "grouping list \<Rightarrow> py_error + result_dict list" where
  "merge_grouping (Part p) = Inr p"
| "merge_grouping (Merged gs) =
     (case merge_groupings gs of
        Inl e \<Rightarrow> Inl e
      | Inr results \<Rightarrow> merge_results results)"
| "merge_groupings [] = Inr []"
| "merge_groupings (g # gs) =
     (case merge_grouping g of
        Inl e \<Rightarrow> Inl e
      | Inr result \<Rightarrow>
          (case merge_groupings gs of
             Inl e \<Rightarrow> Inl e
           | Inr results \<Rightarrow> Inr (result # results)))"

text \<open>The five keys of a result dictionary that the merge reads.\<close>

definition core :: "result_dict \<Rightarrow> int \<times> counts \<times> counts \<times> pyfloat \<times> int" where
  "core r =
     (total_events r, status_counts r, sensor_counts r, energy_sum r, high_energy_events r)"

section \<open>The sweep and the listing as their documentation words them\<close>

text \<open>
  ``Clear completed/failed jobs older than specified hours'': a job is due when
  its status is \<open>COMPLETED\<close> or \<open>FAILED\<close> and the timestamp of its
  \<open>completed_at\<close> is before the cutoff.
\<close>

definition expired :: "(string \<Rightarrow> pyfloat) \<Rightarrow> pyfloat \<Rightarrow> job \<Rightarrow> bool" where
  "expired timestamp cutoff_time j =
     (job_status j \<in> set [COMPLETED, FAILED] \<and>
      (case job_completed_at j of
         None \<Rightarrow> False
       | Some s \<Rightarrow> float_lt (timestamp s) cutoff_time))"

definition matches :: "JobStatus option \<Rightarrow> job \<Rightarrow> bool" where
  \<comment> \<open>the jobs that \<open>list(status?)\<close> asks for\<close>
  "matches status j = (case status of None \<Rightarrow> True | Some s \<Rightarrow> job_status j = s)"

section \<open>Example inputs\<close>

text \<open>
  Three partial results, each of one row, as a worker returns them, in two
  orders and in one grouping; the first row has the energy \<open>2 ^ 53\<close>.
\<close>

definition ex_part :: "int \<Rightarrow> string \<Rightarrow> rat \<Rightarrow> int \<Rightarrow> result_dict" where
  "ex_part cid sensor energy high =
     \<lparr>total_events = 1, status_counts = [(Some ''ok'', 1)],
      sensor_counts = [(Some sensor, 1)],
      energy_sum = Fin energy, high_energy_events = high, avg_energy = Fin energy,
      chunk_id = Some cid, worker_id = None, processing_time = None,
      chunks_processed = None, res_method = None, res_num_workers = None\<rparr>"

definition ex_parts :: "result_dict list" where
  "ex_parts = [ex_part 0 ''s1'' 9007199254740992 1, ex_part 1 ''s2'' 1 0, ex_part 2 ''s2'' 1 0]"

definition ex_parts_rotated :: "result_dict list" where
  "ex_parts_rotated = [ex_part 1 ''s2'' 1 0, ex_part 2 ''s2'' 1 0, ex_part 0 ''s1'' 9007199254740992 1]"

definition ex_grouping :: "grouping list" where
  \<comment> \<open>the third and the first partial result merged, then the second\<close>
  "ex_grouping =
     [Merged [Part (ex_part 2 ''s2'' 1 0), Part (ex_part 0 ''s1'' 9007199254740992 1)],
      Part (ex_part 1 ''s2'' 1 0)]"

definition ex_merged :: result_dict where
  "ex_merged =
     \<lparr>total_events = 3, status_counts = [(Some ''ok'', 3)],
      sensor_counts = [(Some ''s1'', 1), (Some ''s2'', 2)],
      energy_sum = Fin 9007199254740992, high_energy_events = 1,
      avg_energy = Fin (6004799503160661 / 2), chunk_id = None,
      worker_id = None, processing_time = None, chunks_processed = Some 3,
      res_method = None, res_num_workers = None\<rparr>"

text \<open>
  Input files of one line per row after the header, at the path \<open>events.csv\<close>;
  the row \<open>ex_bad\<close> has an energy cell that is not a number, and the row
  \<open>ex_short\<close> ends before its status cell, the last of the line. At the path
  \<open>events.bin\<close> of \<open>ex_binary\<close> are bytes that do not decode. The output
  directory \<open>ex_dir\<close> is empty and every worker measures a quarter of a second.
\<close>

definition ex_ok :: row where
  "ex_ok = Row (Cell ''ok'') (Cell ''s1'') (Cell (Some (Fin 150)))"

definition ex_warn :: row where
  "ex_warn = Row (Cell ''warning'') (Cell ''s2'') (Cell (Some (Fin 50)))"

definition ex_bad :: row where
  "ex_bad = Row (Cell ''ok'') (Cell ''s2'') (Cell None)"

definition ex_short :: row where
  "ex_short = Row NoCell (Cell ''s1'') (Cell (Some (Fin 150)))"

definition ex_binary :: "string \<Rightarrow> path_entry option" where
  "ex_binary path = (if path = ''events.bin'' then Some (Unreadable UnicodeDecodeError) else None)"

definition ex_file :: "row list \<Rightarrow> path_entry" where
  "ex_file rows = TextFile \<lparr>line_count = Suc (length rows), data_rows = rows\<rparr>"

definition ex_files :: "row list \<Rightarrow> string \<Rightarrow> path_entry option" where
  "ex_files rows path = (if path = ''events.csv'' then Some (ex_file rows) else None)"

definition ex_dir :: chunk_dir where
  "ex_dir = (\<lambda>i. None)"

definition ex_elapsed :: "nat \<Rightarrow> pyfloat" where
  "ex_elapsed = (\<lambda>i. Fin (1 / 4))"

text \<open>
  A job store for the examples; \<open>ex_timestamp\<close> reads the two times that occur
  in it as seconds since the epoch (UTC).
\<close>

definition ex_job :: "string \<Rightarrow> JobStatus \<Rightarrow> string \<Rightarrow> string option \<Rightarrow> job" where
  "ex_job jid st created completed =
     \<lparr>job_ident = jid, job_input_file = ''events.csv'', job_num_workers = 4,
      job_method = ''multiprocessing'', job_status = st, job_progress = Fin 1,
      job_created_at = created, job_started_at = Some created,
      job_completed_at = completed, job_results = None, job_error = None\<rparr>"

definition ex_store :: job_store where
  "ex_store =
     [(''a'', ex_job ''a'' COMPLETED ''2024-01-01T10:00:00'' (Some ''2024-01-01T10:05:00'')),
      (''b'', ex_job ''b'' RUNNING ''2024-02-01T09:00:00'' None),
      (''c'', ex_job ''c'' CANCELLED ''2024-01-01T10:00:00'' (Some ''2024-01-01T10:05:00''))]"

definition ex_timestamp :: "string \<Rightarrow> pyfloat" where
  "ex_timestamp s = (if s = ''2024-01-01T10:05:00'' then Fin 1704103500 else Fin 1706778000)"

section \<open>Properties of the float model\<close>

lemma pow2_powi: "pow2 e = 2 powi e"
  by (simp add: pow2_def power_int_def field_simps)

lemma pow2_pos: "0 < pow2 e"
  by (simp add: pow2_powi)

lemma pow2_add: "pow2 (a + b) = pow2 a * pow2 b"
  by (simp add: pow2_powi power_int_add)

lemma pow2_mono: "a \<le> b \<Longrightarrow> pow2 a \<le> pow2 b"
  by (simp add: pow2_powi power_int_increasing)

lemma pow2_strict_mono: "a < b \<Longrightarrow> pow2 a < pow2 b"
  by (simp add: pow2_powi power_int_strict_increasing)

lemma bit_length_bounds:
  "0 < n \<Longrightarrow> 0 < bit_length n \<and> 2 ^ nat (bit_length n - 1) \<le> n \<and> n < 2 ^ nat (bit_length n)"
proof (induction n rule: bit_length.induct)
  case (1 n)
  show ?case
  proof (cases "n div 2 = 0")
    case True
    with "1.prems" have "n = 1" by presburger
    then show ?thesis
      by (simp add: bit_length.simps [of 1] bit_length.simps [of 0])
  next
    case False
    with "1.prems" have pos: "0 < n div 2" by presburger
    define b where "b = bit_length (n div 2)"
    from "1.IH" pos "1.prems" have ih: "0 < b" "2 ^ nat (b - 1) \<le> n div 2" "n div 2 < 2 ^ nat b"
      by (simp_all add: b_def)
    have bl: "bit_length n = 1 + b"
      using "1.prems" by (simp add: bit_length.simps [of n] b_def)
    have e1: "nat b = Suc (nat (b - 1))"
      using ih(1) by simp
    have e2: "nat (1 + b) = Suc (nat b)"
      using ih(1) by simp
    have "2 * 2 ^ nat (b - 1) \<le> 2 * (n div 2)"
      using ih(2) by simp
    also have "\<dots> \<le> n" by presburger
    finally have lo: "2 ^ nat (bit_length n - 1) \<le> n"
      by (simp add: bl) (simp add: e1)
    have "n < 2 * (n div 2 + 1)" by presburger
    also have "\<dots> \<le> 2 * 2 ^ nat b"
      using ih(3) by simp
    finally have hi: "n < 2 ^ nat (bit_length n)"
      by (simp add: bl e2)
    from lo hi ih(1) bl show ?thesis by simp
  qed
qed

lemma bit_length_rat_bounds:
  assumes "0 < n"
  shows "pow2 (bit_length n - 1) \<le> of_int n" and "of_int n < pow2 (bit_length n)"
proof -
  from bit_length_bounds [OF assms]
  have b: "0 < bit_length n" "2 ^ nat (bit_length n - 1) \<le> n" "n < 2 ^ nat (bit_length n)"
    by simp_all
  have "(of_int (2 ^ nat (bit_length n - 1)) :: rat) \<le> of_int n"
    using b(2) by (simp only: of_int_le_iff)
  then show "pow2 (bit_length n - 1) \<le> of_int n"
    using b(1) by (simp add: pow2_def)
  have "(of_int n :: rat) < of_int (2 ^ nat (bit_length n))"
    using b(3) by (simp only: of_int_less_iff)
  then show "of_int n < pow2 (bit_length n)"
    using b(1) by (simp add: pow2_def)
qed

lemma ilog2_bounds:
  assumes "0 < x"
  shows "pow2 (ilog2 x) \<le> x \<and> x < pow2 (ilog2 x + 1)"
proof -
  obtain p q where pq: "quotient_of x = (p, q)" by (cases "quotient_of x")
  have q: "0 < q" using pq by (rule quotient_of_denom_pos)
  have x: "x = of_int p / of_int q" using pq by (rule quotient_of_div)
  have p: "0 < p"
    using assms q by (simp add: x zero_less_divide_iff)
  define k where "k = bit_length p - bit_length q"
  note bp = bit_length_rat_bounds [OF p] and bq = bit_length_rat_bounds [OF q]
  have qr: "(0::rat) < of_int q" using q by simp
  have up: "x < pow2 (k + 1)"
  proof -
    have "x * of_int q = of_int p" using qr by (simp add: x)
    also have "\<dots> < pow2 (bit_length p)" by (rule bp(2))
    also have "\<dots> = pow2 (k + 1) * pow2 (bit_length q - 1)"
      by (simp add: k_def flip: pow2_add)
    also have "\<dots> \<le> pow2 (k + 1) * of_int q"
      using bq(1) pow2_pos [of "k + 1"] by (simp add: mult_left_mono)
    finally show ?thesis using qr by simp
  qed
  have lo: "pow2 (k - 1) < x"
  proof -
    have "pow2 (k - 1) * of_int q < pow2 (k - 1) * pow2 (bit_length q)"
      using bq(2) pow2_pos [of "k - 1"] by (simp add: mult_strict_left_mono)
    also have "\<dots> = pow2 (bit_length p - 1)"
      by (simp add: k_def flip: pow2_add)
    also have "\<dots> \<le> of_int p" by (rule bp(1))
    also have "\<dots> = x * of_int q" using qr by (simp add: x)
    finally show ?thesis using qr by simp
  qed
  have il: "ilog2 x = (if pow2 k \<le> x then k else k - 1)"
    by (simp add: ilog2_def pq k_def Let_def)
  show ?thesis
  proof (cases "pow2 k \<le> x")
    case True
    with up il show ?thesis by simp
  next
    case False
    with lo il show ?thesis by simp
  qed
qed

lemma ilog2_unique:
  assumes "0 < x" "pow2 e \<le> x" "x < pow2 (e + 1)"
  shows "ilog2 x = e"
proof -
  from ilog2_bounds [OF assms(1)]
  have b: "pow2 (ilog2 x) \<le> x" "x < pow2 (ilog2 x + 1)" by simp_all
  have "e < ilog2 x + 1"
  proof (rule ccontr)
    assume "\<not> e < ilog2 x + 1"
    then have "pow2 (ilog2 x + 1) \<le> pow2 e" by (simp add: pow2_mono)
    with b(2) assms(2) show False by simp
  qed
  moreover have "ilog2 x < e + 1"
  proof (rule ccontr)
    assume "\<not> ilog2 x < e + 1"
    then have "pow2 (e + 1) \<le> pow2 (ilog2 x)" by (simp add: pow2_mono)
    with b(1) assms(3) show False by simp
  qed
  ultimately show ?thesis by simp
qed

lemma round64_exponent:
  assumes "pow2 e \<le> \<bar>x\<bar>" "\<bar>x\<bar> < pow2 (e + 1)"
  shows "round64 x =
           (let q = pow2 (max e (- 1022) - 52);
                r = of_int (round_half_even (x / q)) * q
            in if 2 ^ 1024 \<le> \<bar>r\<bar> then (if 0 < x then PInf else NInf) else Fin r)"
proof -
  have "0 < \<bar>x\<bar>" using assms(1) pow2_pos [of e] by linarith
  then have nz: "x \<noteq> 0" by simp
  have "ilog2 \<bar>x\<bar> = e"
    using \<open>0 < \<bar>x\<bar>\<close> assms by (rule ilog2_unique)
  with nz show ?thesis
    by (simp add: round64_def Let_def)
qed

lemma round_half_even_eq:
  assumes "\<bar>y - of_int m\<bar> < 1 / 2 \<or> (\<bar>y - of_int m\<bar> = 1 / 2 \<and> even m)"
  shows "round_half_even y = m"
proof (cases "of_int m \<le> y")
  case True
  with assms have d: "y - of_int m < 1 / 2 \<or> (y - of_int m = 1 / 2 \<and> even m)"
    by (simp add: abs_if split: if_splits)
  have f: "\<lfloor>y\<rfloor> = m"
    using True d by (intro floor_unique) auto
  from d show ?thesis
    by (auto simp: round_half_even_def Let_def f)
next
  case False
  with assms have d: "of_int m - y < 1 / 2 \<or> (of_int m - y = 1 / 2 \<and> even m)"
    by (simp add: abs_if split: if_splits)
  have f: "\<lfloor>y\<rfloor> = m - 1"
    using False d by (intro floor_unique) auto
  from d False show ?thesis
    by (auto simp: round_half_even_def Let_def f)
qed

lemma round64_nearest:
  assumes "pow2 e \<le> \<bar>x\<bar>" "\<bar>x\<bar> < pow2 (e + 1)"
    and "q = pow2 (max e (- 1022) - 52)"
    and "\<bar>x / q - of_int m\<bar> < 1 / 2 \<or> (\<bar>x / q - of_int m\<bar> = 1 / 2 \<and> even m)"
    and "r = of_int m * q"
    and "\<bar>r\<bar> < 2 ^ 1024"
  shows "round64 x = Fin r"
proof -
  have "round_half_even (x / q) = m"
    using assms(4) by (rule round_half_even_eq)
  then have "round64 x = (if 2 ^ 1024 \<le> \<bar>r\<bar> then (if 0 < x then PInf else NInf) else Fin r)"
    by (simp add: round64_exponent [OF assms(1,2)] Let_def flip: assms(3) assms(5))
  with assms(6) show ?thesis by simp
qed

lemma round64_2_53: "round64 9007199254740992 = Fin 9007199254740992"
  by (rule round64_nearest [where e = 53 and q = 2 and m = 4503599627370496])
     (simp_all add: pow2_def)

lemma round64_int_exact:
  assumes "0 < n" "n \<le> 9007199254740992"
  shows "round64 (of_int n) = Fin (of_int n)"
proof (cases "n = 9007199254740992")
  case True
  show ?thesis
    using round64_2_53 by (simp add: True)
next
  case False
  with assms have lt: "n < 9007199254740992" by simp
  define e where "e = bit_length n - 1"
  note b = bit_length_rat_bounds [OF assms(1)]
  have e0: "0 \<le> e" using bit_length_bounds [OF assms(1)] by (simp add: e_def)
  have lo: "pow2 e \<le> \<bar>of_int n\<bar>" using b(1) assms(1) by (simp add: e_def)
  have hi: "\<bar>of_int n\<bar> < pow2 (e + 1)" using b(2) assms(1) by (simp add: e_def)
  have "e < 53"
  proof (rule ccontr)
    assume "\<not> e < 53"
    then have "pow2 53 \<le> pow2 e" by (simp add: pow2_mono)
    also have "\<dots> \<le> of_int n" using lo assms(1) by simp
    finally have "(of_int 9007199254740992 :: rat) \<le> of_int n" by (simp add: pow2_def)
    then have "9007199254740992 \<le> n" by (simp only: of_int_le_iff)
    with lt show False by simp
  qed
  define m where "m = n * 2 ^ nat (52 - e)"
  define q where "q = pow2 (e - 52)"
  have qq: "q = pow2 (max e (- 1022) - 52)"
    using e0 by (simp add: q_def max_def)
  have "pow2 (52 - e) * pow2 (e - 52) = pow2 0"
    by (simp flip: pow2_add)
  then have inv: "pow2 (52 - e) * q = 1"
    by (simp add: q_def pow2_def [of 0])
  have p: "(2::rat) ^ nat (52 - e) = pow2 (52 - e)"
    using \<open>e < 53\<close> by (simp add: pow2_def)
  have "of_int m * q = of_int n * (pow2 (52 - e) * q)"
    by (simp add: m_def p)
  then have mq: "of_int m * q = of_int n"
    by (simp only: inv mult_1_right)
  have qpos: "0 < q" by (simp add: q_def pow2_pos)
  have xq: "of_int n / q = of_int m"
    using qpos mq by (simp add: field_simps)
  have near: "\<bar>of_int n / q - of_int m\<bar> < 1 / 2 \<or> (\<bar>of_int n / q - of_int m\<bar> = 1 / 2 \<and> even m)"
    by (simp add: xq)
  have "(of_int n :: rat) < of_int 9007199254740992" using lt by (simp only: of_int_less_iff)
  then have small: "\<bar>of_int n :: rat\<bar> < 2 ^ 1024"
    using assms(1) by simp
  show ?thesis
    using lo hi qq near mq [symmetric] small by (rule round64_nearest)
qed

lemma int_to_float_exact:
  assumes "0 \<le> n" "n \<le> 9007199254740992"
  shows "int_to_float n = Inr (Fin (of_int n))"
proof (cases "n = 0")
  case True
  then show ?thesis by (simp add: int_to_float_def round64_def)
next
  case False
  with assms have "0 < n" by simp
  then show ?thesis
    by (simp add: int_to_float_def round64_int_exact [OF _ assms(2)])
qed

subsection \<open>Evaluating the float model\<close>

lemma round64_tenth: "round64 (1 / 10) = Fin (3602879701896397 / 36028797018963968)"
  by (rule round64_nearest [where e = "- 4" and q = "1 / 72057594037927936"
                              and m = 7205759403792794])
     (simp_all add: pow2_def)

lemma round64_numeral:
  "(numeral k :: int) \<le> 9007199254740992 \<Longrightarrow> round64 (numeral k) = Fin (numeral k)"
  using round64_int_exact [of "numeral k"] by simp

lemma round64_0: "round64 0 = Fin 0"
  by (simp add: round64_def)

lemma round64_1: "round64 1 = Fin 1"
  using round64_int_exact [of 1] by simp

lemma int_to_float_numeral:
  "(numeral k :: int) \<le> 9007199254740992 \<Longrightarrow> int_to_float (numeral k) = Inr (Fin (numeral k))"
  using int_to_float_exact [of "numeral k"] by simp

lemma int_to_float_1: "int_to_float 1 = Inr (Fin 1)"
  using int_to_float_exact [of 1] by simp

lemma round64_2_53_1: "round64 9007199254740993 = Fin 9007199254740992"
  by (rule round64_nearest [where e = 53 and q = 2 and m = 4503599627370496])
     (simp_all add: pow2_def)

lemma round64_2_53_2: "round64 9007199254740994 = Fin 9007199254740994"
  by (rule round64_nearest [where e = 53 and q = 2 and m = 4503599627370497])
     (simp_all add: pow2_def)

lemma round64_2_53_third: "round64 (9007199254740992 / 3) = Fin (6004799503160661 / 2)"
  by (rule round64_nearest [where e = 51 and q = "1 / 2" and m = 6004799503160661])
     (simp_all add: pow2_def)

lemma round64_2_53_2_third: "round64 (9007199254740994 / 3) = Fin (6004799503160663 / 2)"
  by (rule round64_nearest [where e = 51 and q = "1 / 2" and m = 6004799503160663])
     (simp_all add: pow2_def)

lemmas eval_float =
  round64_numeral round64_0 round64_1 int_to_float_numeral int_to_float_1 round64_2_53
  round64_2_53_1 round64_2_53_2 round64_2_53_third round64_2_53_2_third

section \<open>Properties of the chunk planner\<close>

lemma sum_list_const_upto:
  "sum_list (map (\<lambda>i. c) [0..n]) = (if 0 \<le> n then (n + 1) * c else (0::int))"
proof (cases "0 \<le> n")
  case True
  have "sum_list (map (\<lambda>i. c) [0..n]) = int (length [0..n]) * c"
    by (simp add: sum_list_triv)
  with True show ?thesis by simp
next
  case False
  then show ?thesis by simp
qed

lemma chunk_counts_sum:
  assumes "1 \<le> (N::int)"
  shows "sum_list (map (\<lambda>i. if i = N - 1 then T - i * c else c) [0..N - 1]) = T"
proof -
  have split: "[0..N - 1] = [0..N - 2] @ [N - 1]"
    using assms upto_rec2 [of 0 "N - 1"] by simp
  have "sum_list (map (\<lambda>i. if i = N - 1 then T - i * c else c) [0..N - 2])
        = sum_list (map (\<lambda>i. c) [0..N - 2])"
    by (rule arg_cong [where f = sum_list], rule map_cong) auto
  also have "\<dots> = (N - 1) * c"
    using assms by (simp add: sum_list_const_upto)
  finally show ?thesis
    by (simp add: split)
qed

text \<open>
  C1. For every \<open>total_rows \<ge> 0\<close> and \<open>num_workers \<ge> 1\<close> the planner returns exactly
  \<open>num_workers\<close> chunks; chunk 0 starts at row 0; every chunk starts where the previous
  one ends; the row counts are non-negative and add up to \<open>total_rows\<close>, so the chunks
  partition \<open>[0, total_rows)\<close> without gap or overlap; every chunk but the last has
  \<open>floor(total_rows / num_workers)\<close> rows and the last one takes the remainder
  \<open>total_rows - (num_workers - 1) * floor(total_rows / num_workers)\<close>.
\<close>

theorem split_into_chunks_partition:
  assumes "0 \<le> total_rows" and "1 \<le> num_workers"
  shows "\<exists>chunks.
      split_into_chunks total_rows num_workers = Inr chunks
    \<and> int (length chunks) = num_workers
    \<and> fst (chunks ! 0) = 0
    \<and> (\<forall>i. Suc i < length chunks \<longrightarrow>
            fst (chunks ! Suc i) = fst (chunks ! i) + snd (chunks ! i))
    \<and> fst (last chunks) + snd (last chunks) = total_rows
    \<and> sum_list (map snd chunks) = total_rows
    \<and> (\<forall>i < length chunks. 0 \<le> snd (chunks ! i))
    \<and> (\<forall>i. Suc i < length chunks \<longrightarrow> snd (chunks ! i) = total_rows div num_workers)
    \<and> snd (last chunks)
        = total_rows - (num_workers - 1) * (total_rows div num_workers)"
proof -
  define c where "c = total_rows div num_workers"
  define g where "g = (\<lambda>i. (i * c, if i = num_workers - 1 then total_rows - i * c else c))"
  define chunks where "chunks = map g [0..num_workers - 1]"
  have run: "split_into_chunks total_rows num_workers = Inr chunks"
    using assms by (simp add: split_into_chunks_def chunks_def g_def c_def Let_def)
  have len: "length chunks = nat num_workers"
    by (simp add: chunks_def)
  have nth: "chunks ! i = g (int i)" if "i < length chunks" for i
    using that by (simp add: chunks_def)
  have c0: "0 \<le> c"
    using assms by (simp add: c_def pos_imp_zdiv_nonneg_iff)
  have cN: "num_workers * c \<le> total_rows"
  proof -
    have "total_rows = num_workers * c + total_rows mod num_workers"
      by (simp add: c_def)
    moreover have "0 \<le> total_rows mod num_workers"
      using assms by simp
    ultimately show ?thesis by linarith
  qed
  have lastc: "last chunks = g (num_workers - 1)"
    using assms by (simp add: chunks_def last_map upto_rec2 [of 0 "num_workers - 1"])
  have rem: "0 \<le> total_rows - (num_workers - 1) * c"
  proof -
    have "(num_workers - 1) * c \<le> num_workers * c"
      using c0 by (simp add: mult_right_mono)
    with cN show ?thesis by simp
  qed
  have p1: "int (length chunks) = num_workers"
    using assms by (simp add: len)
  have p2: "fst (chunks ! 0) = 0"
    using assms by (simp add: nth len g_def)
  have p3: "\<forall>i. Suc i < length chunks \<longrightarrow>
              fst (chunks ! Suc i) = fst (chunks ! i) + snd (chunks ! i)"
  proof (intro allI impI)
    fix i assume h: "Suc i < length chunks"
    then have "int i \<noteq> num_workers - 1" by (simp add: len)
    with h show "fst (chunks ! Suc i) = fst (chunks ! i) + snd (chunks ! i)"
      by (simp add: nth g_def algebra_simps)
  qed
  have p4: "fst (last chunks) + snd (last chunks) = total_rows"
    by (simp add: lastc g_def)
  have p5: "sum_list (map snd chunks) = total_rows"
  proof -
    have "map snd chunks
          = map (\<lambda>i. if i = num_workers - 1 then total_rows - i * c else c) [0..num_workers - 1]"
      by (simp add: chunks_def g_def comp_def)
    then show ?thesis
      using chunk_counts_sum [OF assms(2)] by simp
  qed
  have p6: "\<forall>i < length chunks. 0 \<le> snd (chunks ! i)"
    using c0 rem by (simp add: nth g_def)
  have p7: "\<forall>i. Suc i < length chunks \<longrightarrow> snd (chunks ! i) = total_rows div num_workers"
  proof (intro allI impI)
    fix i assume h: "Suc i < length chunks"
    then have "int i \<noteq> num_workers - 1" by (simp add: len)
    with h show "snd (chunks ! i) = total_rows div num_workers"
      by (simp add: nth g_def c_def)
  qed
  have p8: "snd (last chunks) = total_rows - (num_workers - 1) * (total_rows div num_workers)"
    by (simp add: lastc g_def c_def)
  from run p1 p2 p3 p4 p5 p6 p7 p8 show ?thesis by blast
qed

theorem split_into_chunks_partition_witness:
  "(0::int) \<le> 10 \<and> (1::int) \<le> 4
   \<and> split_into_chunks 10 4 = Inr [(0, 2), (2, 2), (4, 2), (6, 4)]"
proof -
  have eval: "split_into_chunks 10 4 = Inr [(0, 2), (2, 2), (4, 2), (6, 4)]"
    by (simp add: split_into_chunks_def Let_def upto.simps)
  from split_into_chunks_partition [of 10 4] eval show ?thesis by simp
qed

section \<open>Properties of the merge\<close>

lemma map_of_incr: "map_of (incr k c d) = (map_of d)(k \<mapsto> count_of d k + c)"
  by (simp add: incr_def update_conv')

lemma count_of_incr: "count_of (incr k c d) k' = (if k' = k then count_of d k + c else count_of d k')"
  by (simp add: count_of_def map_of_incr)

lemma count_of_merge_counts:
  "count_of (merge_counts m items) k
     = count_of m k + (\<Sum>(k', c)\<leftarrow>items. if k' = k then c else 0)"
  unfolding merge_counts_def
  by (induction items arbitrary: m) (auto simp: count_of_incr)

lemma dom_merge_counts:
  "dom (map_of (merge_counts m items)) = dom (map_of m) \<union> fst ` set items"
  unfolding merge_counts_def
  by (induction items arbitrary: m) (auto simp: map_of_incr)

lemma count_of_Nil: "count_of [] k = 0"
  by (simp add: count_of_def)

lemma map_of_eq_count_of:
  "map_of d k = (if k \<in> dom (map_of d) then Some (count_of d k) else None)"
  by (auto simp: count_of_def split: option.splits)

lemma total_events_foldl:
  "total_events (foldl merge_step m ps) = total_events m + sum_list (map total_events ps)"
  by (induction ps arbitrary: m) (simp_all add: merge_step_def)

lemma high_energy_events_foldl:
  "high_energy_events (foldl merge_step m ps)
     = high_energy_events m + sum_list (map high_energy_events ps)"
  by (induction ps arbitrary: m) (simp_all add: merge_step_def)

lemma energy_sum_foldl:
  "energy_sum (foldl merge_step m ps) = foldl float_add (energy_sum m) (map energy_sum ps)"
  by (induction ps arbitrary: m) (simp_all add: merge_step_def)

lemma count_of_status_foldl:
  "count_of (status_counts (foldl merge_step m ps)) k
     = count_of (status_counts m) k + key_total (map status_counts ps) k"
  by (induction ps arbitrary: m)
     (simp_all add: merge_step_def key_total_def count_of_merge_counts)

lemma dom_status_foldl:
  "dom (map_of (status_counts (foldl merge_step m ps)))
     = dom (map_of (status_counts m)) \<union> (\<Union>p\<in>set ps. fst ` set (status_counts p))"
  by (induction ps arbitrary: m)
     (auto simp: merge_step_def dom_merge_counts)

lemma count_of_sensor_foldl:
  "count_of (sensor_counts (foldl merge_step m ps)) k
     = count_of (sensor_counts m) k + key_total (map sensor_counts ps) k"
  by (induction ps arbitrary: m)
     (simp_all add: merge_step_def key_total_def count_of_merge_counts)

lemma dom_sensor_foldl:
  "dom (map_of (sensor_counts (foldl merge_step m ps)))
     = dom (map_of (sensor_counts m)) \<union> (\<Union>p\<in>set ps. fst ` set (sensor_counts p))"
  by (induction ps arbitrary: m)
     (auto simp: merge_step_def dom_merge_counts)

lemma status_counts_merge_loop:
  "map_of (status_counts (merge_loop ps)) = sum_counts (map status_counts ps)"
proof
  fix k
  show "map_of (status_counts (merge_loop ps)) k = sum_counts (map status_counts ps) k"
    by (subst map_of_eq_count_of)
       (simp add: merge_loop_def dom_status_foldl count_of_status_foldl sum_counts_def
          new_processor_def count_of_Nil)
qed

lemma sensor_counts_merge_loop:
  "map_of (sensor_counts (merge_loop ps)) = sum_counts (map sensor_counts ps)"
proof
  fix k
  show "map_of (sensor_counts (merge_loop ps)) k = sum_counts (map sensor_counts ps) k"
    by (subst map_of_eq_count_of)
       (simp add: merge_loop_def dom_sensor_foldl count_of_sensor_foldl sum_counts_def
          new_processor_def count_of_Nil)
qed

lemma sum_list_map_mset_cong:
  fixes g :: "'a \<Rightarrow> int"
  assumes "mset xs = mset ys"
  shows "sum_list (map g xs) = sum_list (map g ys)"
proof -
  have "sum_list (map g xs) = sum_mset (image_mset g (mset xs))"
    by (simp flip: sum_mset_sum_list)
  also have "\<dots> = sum_mset (image_mset g (mset ys))"
    by (simp add: assms)
  also have "\<dots> = sum_list (map g ys)"
    by (simp flip: sum_mset_sum_list)
  finally show ?thesis .
qed

lemma sum_counts_mset_cong:
  assumes "mset ps = mset qs"
  shows "sum_counts (map f ps) = sum_counts (map f qs)"
proof
  fix k
  have s: "set ps = set qs"
    using assms by (rule mset_eq_setD)
  have "key_total (map f ps) k = key_total (map f qs) k"
    unfolding key_total_def map_map
    by (rule sum_list_map_mset_cong [OF assms])
  with s show "sum_counts (map f ps) k = sum_counts (map f qs) k"
    by (simp add: sum_counts_def)
qed

lemma isl_float_truediv: "isl (float_truediv x d) = (d = Fin 0)"
  by (cases x; cases d) simp_all

lemma isl_float_truediv_int:
  "isl (float_truediv_int x n) = (case int_to_float n of Inl e \<Rightarrow> True | Inr d \<Rightarrow> d = Fin 0)"
  by (simp add: float_truediv_int_def isl_float_truediv split: sum.splits)

lemma average_isl: "isl (average x n) = isl (average y n)"
  by (simp add: average_def isl_float_truediv_int)

lemma distinct_incr: "distinct (map fst d) \<Longrightarrow> distinct (map fst (incr k c d))"
  by (simp add: incr_def distinct_update)

lemma distinct_merge_counts:
  "distinct (map fst m) \<Longrightarrow> distinct (map fst (merge_counts m items))"
  unfolding merge_counts_def
  by (induction items arbitrary: m) (auto simp: distinct_incr)

lemma distinct_foldl_merge_step:
  "distinct (map fst (status_counts m)) \<Longrightarrow> distinct (map fst (sensor_counts m))
   \<Longrightarrow> distinct (map fst (status_counts (foldl merge_step m ps)))
     \<and> distinct (map fst (sensor_counts (foldl merge_step m ps)))"
  by (induction ps arbitrary: m) (simp_all add: merge_step_def distinct_merge_counts)

lemma distinct_merge_loop:
  "distinct (map fst (status_counts (merge_loop ps)))"
  "distinct (map fst (sensor_counts (merge_loop ps)))"
  using distinct_foldl_merge_step [of new_processor ps]
  by (simp_all add: merge_loop_def new_processor_def)

lemma entries_sum_distinct:
  "distinct (map fst d) \<Longrightarrow> (\<Sum>(k', c)\<leftarrow>d. if k' = k then c else 0) = count_of d k"
proof (induction d)
  case Nil
  then show ?case by (simp add: count_of_def)
next
  case (Cons a d)
  obtain k' c where a: "a = (k', c)" by (cases a)
  show ?case
  proof (cases "k' = k")
    case True
    with Cons a have "k \<notin> fst ` set d" by auto
    then have "map_of d k = None" by (simp add: map_of_eq_None_iff)
    then have "count_of d k = 0" by (simp add: count_of_def)
    with Cons a True show ?thesis by (simp add: count_of_def)
  next
    case False
    with Cons a show ?thesis by (simp add: count_of_def)
  qed
qed

lemma merge_results_unfold:
  "merge_results ps =
     (case average (energy_sum (merge_loop ps)) (total_events (merge_loop ps)) of
        Inl e \<Rightarrow> Inl e
      | Inr avg \<Rightarrow>
          Inr \<lparr>total_events = total_events (merge_loop ps),
               status_counts = status_counts (merge_loop ps),
               sensor_counts = sensor_counts (merge_loop ps),
               energy_sum = energy_sum (merge_loop ps),
               high_energy_events = high_energy_events (merge_loop ps),
               avg_energy = avg,
               chunk_id = None, worker_id = None, processing_time = None,
               chunks_processed = Some (int (length ps)),
               res_method = None, res_num_workers = None\<rparr>)"
  by (simp add: merge_results_def Let_def)

lemma total_events_merge_loop:
  "total_events (merge_loop ps) = sum_list (map total_events ps)"
  by (simp add: merge_loop_def total_events_foldl new_processor_def)

lemma high_energy_events_merge_loop:
  "high_energy_events (merge_loop ps) = sum_list (map high_energy_events ps)"
  by (simp add: merge_loop_def high_energy_events_foldl new_processor_def)

lemma energy_sum_merge_loop:
  "energy_sum (merge_loop ps) = foldl float_add (Fin 0) (map energy_sum ps)"
  by (simp add: merge_loop_def energy_sum_foldl new_processor_def)

lemma merge_results_Inr:
  assumes "merge_results ps = Inr r"
  shows "total_events r = total_events (merge_loop ps)"
    and "status_counts r = status_counts (merge_loop ps)"
    and "sensor_counts r = sensor_counts (merge_loop ps)"
    and "energy_sum r = energy_sum (merge_loop ps)"
    and "high_energy_events r = high_energy_events (merge_loop ps)"
    and "average (energy_sum r) (total_events r) = Inr (avg_energy r)"
    and "chunks_processed r = Some (int (length ps))"
  using assms by (auto simp: merge_results_unfold split: sum.splits)

lemma isl_merge_results:
  "isl (merge_results ps) = isl (average (Fin 0) (sum_list (map total_events ps)))"
proof -
  have "isl (merge_results ps)
        = isl (average (energy_sum (merge_loop ps)) (total_events (merge_loop ps)))"
    by (simp add: merge_results_unfold split: sum.splits)
  then show ?thesis
    using average_isl [of "energy_sum (merge_loop ps)" _ "Fin 0"]
    by (simp add: total_events_merge_loop)
qed

lemma count_fields_merge_results:
  assumes "merge_results ps = Inr r"
  shows "count_fields r =
           (sum_list (map total_events ps), sum_counts (map status_counts ps),
            sum_counts (map sensor_counts ps), sum_list (map high_energy_events ps))"
  using merge_results_Inr [OF assms]
  by (simp add: count_fields_def total_events_merge_loop high_energy_events_merge_loop
        status_counts_merge_loop sensor_counts_merge_loop)

lemma dom_sum_counts: "dom (sum_counts xs) = (\<Union>d\<in>set xs. fst ` set d)"
  by (auto simp: sum_counts_def dom_def split: if_splits)

lemma key_total_absent:
  assumes "k \<notin> (\<Union>d\<in>set zs. fst ` set d)"
  shows "key_total zs k = 0"
  unfolding key_total_def
proof (rule sum_list_0 [THEN trans [rotated]], rule arg_cong [where f = sum_list], rule map_cong [OF refl])
  fix d assume "d \<in> set zs"
  with assms have "k \<notin> fst ` set d" by auto
  then have "\<forall>e\<in>set d. (case e of (k', c) \<Rightarrow> if k' = k then c else 0) = 0"
    by (auto simp: image_iff)
  then show "(\<Sum>(k', c)\<leftarrow>d. if k' = k then c else 0) = 0"
    by (simp add: sum_list_0 cong: map_cong)
qed

lemma key_total_append: "key_total (xs @ ys) k = key_total xs k + key_total ys k"
  by (simp add: key_total_def)

lemma sum_counts_append:
  "sum_counts (xs @ ys) k =
     (case (sum_counts xs k, sum_counts ys k) of
        (None, None) \<Rightarrow> None
      | (Some a, None) \<Rightarrow> Some a
      | (None, Some b) \<Rightarrow> Some b
      | (Some a, Some b) \<Rightarrow> Some (a + b))"
  using key_total_absent [of k xs] key_total_absent [of k ys]
  by (auto simp: sum_counts_def key_total_append)

lemma sum_counts_append_cong:
  assumes "sum_counts xs = sum_counts xs'" and "sum_counts ys = sum_counts ys'"
  shows "sum_counts (xs @ ys) = sum_counts (xs' @ ys')"
  by (rule ext) (simp add: sum_counts_append assms)

lemma sum_counts_single:
  assumes "distinct (map fst d)"
  shows "sum_counts [d] = map_of d"
proof
  fix k
  show "sum_counts [d] k = map_of d k"
  proof (cases "map_of d k")
    case None
    then have "k \<notin> fst ` set d"
      by (simp add: map_of_eq_None_iff)
    with None show ?thesis
      by (simp add: sum_counts_def)
  next
    case (Some v)
    then have "k \<in> fst ` set d"
      by (metis map_of_eq_None_iff option.distinct(1))
    moreover have "key_total [d] k = v"
      using Some by (simp add: key_total_def entries_sum_distinct [OF assms] count_of_def)
    ultimately show ?thesis
      using Some by (simp add: sum_counts_def)
  qed
qed

lemma sum_counts_merge_results:
  assumes "merge_results ps = Inr r"
  shows "sum_counts [status_counts r] = sum_counts (map status_counts ps)"
    and "sum_counts [sensor_counts r] = sum_counts (map sensor_counts ps)"
proof -
  have d: "distinct (map fst (status_counts r))" "distinct (map fst (sensor_counts r))"
    using distinct_merge_loop [of ps] merge_results_Inr(2,3) [OF assms] by simp_all
  from count_fields_merge_results [OF assms]
  have "map_of (status_counts r) = sum_counts (map status_counts ps)"
    and "map_of (sensor_counts r) = sum_counts (map sensor_counts ps)"
    by (simp_all add: count_fields_def)
  with d show "sum_counts [status_counts r] = sum_counts (map status_counts ps)"
    and "sum_counts [sensor_counts r] = sum_counts (map sensor_counts ps)"
    by (simp_all add: sum_counts_single)
qed

text \<open>
  The result of a grouping holds the sums over the partial results of the
  grouping.
\<close>

lemma merge_grouping_sums:
  "merge_grouping g = Inr a \<Longrightarrow>
     total_events a = sum_list (map total_events (parts g))
     \<and> high_energy_events a = sum_list (map high_energy_events (parts g))
     \<and> sum_counts [status_counts a] = sum_counts (map status_counts (parts g))
     \<and> sum_counts [sensor_counts a] = sum_counts (map sensor_counts (parts g))"
  and merge_groupings_sums:
  "merge_groupings gs = Inr rs \<Longrightarrow>
     sum_list (map total_events rs) = sum_list (map total_events (concat (map parts gs)))
     \<and> sum_list (map high_energy_events rs)
         = sum_list (map high_energy_events (concat (map parts gs)))
     \<and> sum_counts (map status_counts rs) = sum_counts (map status_counts (concat (map parts gs)))
     \<and> sum_counts (map sensor_counts rs) = sum_counts (map sensor_counts (concat (map parts gs)))"
proof (induction g and gs arbitrary: a and rs rule: merge_grouping_merge_groupings.induct)
  case (1 p)
  then show ?case by simp
next
  case (2 gs)
  from "2.prems" obtain rs where rs: "merge_groupings gs = Inr rs"
    and a: "merge_results rs = Inr a"
    by (auto split: sum.splits)
  note ih = "2.IH" [OF rs]
  from count_fields_merge_results [OF a]
  have "total_events a = sum_list (map total_events rs)"
    and "high_energy_events a = sum_list (map high_energy_events rs)"
    by (simp_all add: count_fields_def)
  with ih sum_counts_merge_results [OF a] show ?case
    by simp
next
  case 3
  then show ?case by simp
next
  case (4 g gs)
  from "4.prems" obtain a rs' where a: "merge_grouping g = Inr a"
    and rs': "merge_groupings gs = Inr rs'" and rs: "rs = a # rs'"
    by (auto split: sum.splits)
  note h = "4.IH"(1) [OF a] and t = "4.IH"(2) [OF a rs']
  have st: "sum_counts ([status_counts a] @ map status_counts rs')
            = sum_counts (map status_counts (parts g) @ map status_counts (concat (map parts gs)))"
    using h t by (intro sum_counts_append_cong) simp_all
  have sn: "sum_counts ([sensor_counts a] @ map sensor_counts rs')
            = sum_counts (map sensor_counts (parts g) @ map sensor_counts (concat (map parts gs)))"
    using h t by (intro sum_counts_append_cong) simp_all
  from h t st sn show ?case
    by (simp add: rs)
qed

text \<open>
  C2 (amended). Where the merge returns a result \<open>r\<close>: \<open>total\<close> and
  \<open>high_energy_events\<close> are the sums over the partial results, and \<open>status_counts\<close>
  and \<open>sensor_counts\<close> are the per-key sums. These four are the same for every
  permutation of the partial results, which the merge then also accepts, and for
  every grouping: where the partial results, in any order, are merged in any
  number of groups, the groups in groups again to any depth, and every inner
  merge returns its result, the merge of these results returns a result with the
  same four values. \<open>energy_sum\<close> is the float sum of the partial sums taken from
  0.0 in list order, and \<open>avg_energy\<close> is \<open>energy_sum / total\<close>, 0 when \<open>total\<close> is
  not positive; these two depend on the order and the grouping through the
  rounding of float addition. A merge returns a result whenever its \<open>total\<close> is
  at most \<open>2 ^ 53\<close> (\<open>merge_results_returns\<close>).
\<close>

theorem merge_results_sums:
  assumes "merge_results ps = Inr r"
  shows "count_fields r =
           (sum_list (map total_events ps), sum_counts (map status_counts ps),
            sum_counts (map sensor_counts ps), sum_list (map high_energy_events ps))
       \<and> energy_sum r = foldl float_add (Fin 0) (map energy_sum ps)
       \<and> average (energy_sum r) (total_events r) = Inr (avg_energy r)
       \<and> (\<forall>qs. mset qs = mset ps \<longrightarrow>
             (\<exists>s. merge_results qs = Inr s \<and> count_fields s = count_fields r))
       \<and> (\<forall>gs rs. mset (parts (Merged gs)) = mset ps \<and> merge_groupings gs = Inr rs \<longrightarrow>
             (\<exists>s. merge_grouping (Merged gs) = Inr s \<and> count_fields s = count_fields r))"
proof -
  note cf = count_fields_merge_results [OF assms]
  have ok: "\<not> isl (average (Fin 0) (sum_list (map total_events ps)))"
    using assms isl_merge_results [of ps] by simp
  have perm: "\<exists>s. merge_results qs = Inr s \<and> count_fields s = count_fields r"
    if q: "mset qs = mset ps" for qs
  proof -
    have t: "sum_list (map total_events qs) = sum_list (map total_events ps)"
      by (rule sum_list_map_mset_cong [OF q])
    have h: "sum_list (map high_energy_events qs) = sum_list (map high_energy_events ps)"
      by (rule sum_list_map_mset_cong [OF q])
    have "\<not> isl (merge_results qs)"
      using ok by (simp add: isl_merge_results t)
    then obtain s where s: "merge_results qs = Inr s"
      by (cases "merge_results qs") auto
    have "count_fields s = count_fields r"
      by (simp add: cf count_fields_merge_results [OF s] t h
            sum_counts_mset_cong [OF q, of status_counts]
            sum_counts_mset_cong [OF q, of sensor_counts])
    with s show ?thesis by blast
  qed
  have grp: "\<exists>s. merge_grouping (Merged gs) = Inr s \<and> count_fields s = count_fields r"
    if g: "mset (parts (Merged gs)) = mset ps \<and> merge_groupings gs = Inr rs" for gs rs
  proof -
    define qs where "qs = concat (map parts gs)"
    from g have q: "mset qs = mset ps" and rs: "merge_groupings gs = Inr rs"
      by (simp_all add: qs_def)
    from merge_groupings_sums [OF rs]
    have t: "sum_list (map total_events rs) = sum_list (map total_events qs)"
      and h: "sum_list (map high_energy_events rs) = sum_list (map high_energy_events qs)"
      and st: "sum_counts (map status_counts rs) = sum_counts (map status_counts qs)"
      and sn: "sum_counts (map sensor_counts rs) = sum_counts (map sensor_counts qs)"
      by (simp_all add: qs_def)
    have tq: "sum_list (map total_events qs) = sum_list (map total_events ps)"
      by (rule sum_list_map_mset_cong [OF q])
    have hq: "sum_list (map high_energy_events qs) = sum_list (map high_energy_events ps)"
      by (rule sum_list_map_mset_cong [OF q])
    have "\<not> isl (merge_results rs)"
      using ok by (simp add: isl_merge_results t tq)
    then obtain s where s: "merge_results rs = Inr s"
      by (cases "merge_results rs") auto
    have "count_fields s = count_fields r"
      by (simp add: cf count_fields_merge_results [OF s] t h st sn tq hq
            sum_counts_mset_cong [OF q, of status_counts]
            sum_counts_mset_cong [OF q, of sensor_counts])
    with s rs show ?thesis by simp
  qed
  from cf merge_results_Inr(4,6) [OF assms] energy_sum_merge_loop [of ps] perm grp
  show ?thesis by simp
qed

lemmas eval_merge =
  merge_results_def merge_loop_def merge_step_def merge_counts_def incr_def count_of_def
  new_processor_def average_def float_truediv_int_def Let_def

lemma merge_ex_parts:
  "merge_results ex_parts =
     Inr \<lparr>total_events = 3, status_counts = [(Some ''ok'', 3)],
          sensor_counts = [(Some ''s1'', 1), (Some ''s2'', 2)],
          energy_sum = Fin 9007199254740992, high_energy_events = 1,
          avg_energy = Fin (6004799503160661 / 2), chunk_id = None,
          worker_id = None, processing_time = None, chunks_processed = Some 3,
          res_method = None, res_num_workers = None\<rparr>"
  by (simp add: ex_parts_def ex_part_def eval_merge eval_float)

lemma merge_ex_parts_rotated:
  "merge_results ex_parts_rotated =
     Inr \<lparr>total_events = 3, status_counts = [(Some ''ok'', 3)],
          sensor_counts = [(Some ''s2'', 2), (Some ''s1'', 1)],
          energy_sum = Fin 9007199254740994, high_energy_events = 1,
          avg_energy = Fin (6004799503160663 / 2), chunk_id = None,
          worker_id = None, processing_time = None, chunks_processed = Some 3,
          res_method = None, res_num_workers = None\<rparr>"
  by (simp add: ex_parts_rotated_def ex_part_def eval_merge eval_float)

text \<open>
  The merge raises only where \<open>total\<close> is too large for a float; up to \<open>2 ^ 53\<close>
  the conversion is exact.
\<close>

lemma average_returns: "n \<le> 9007199254740992 \<Longrightarrow> \<not> isl (average x n)"
  by (simp add: average_def isl_float_truediv_int int_to_float_exact)

lemma merge_results_returns:
  assumes "sum_list (map total_events ps) \<le> 9007199254740992"
  shows "\<exists>r. merge_results ps = Inr r"
proof -
  have "\<not> isl (merge_results ps)"
    using assms by (simp add: isl_merge_results average_returns)
  then show ?thesis
    by (cases "merge_results ps") auto
qed

theorem merge_results_sums_witness:
  "merge_results ex_parts = Inr ex_merged
   \<and> mset ex_parts_rotated = mset ex_parts
   \<and> mset (parts (Merged ex_grouping)) = mset ex_parts
   \<and> count_fields ex_merged =
        (sum_list (map total_events ex_parts), sum_counts (map status_counts ex_parts),
         sum_counts (map sensor_counts ex_parts), sum_list (map high_energy_events ex_parts))
   \<and> (\<exists>s. merge_results ex_parts_rotated = Inr s \<and> count_fields s = count_fields ex_merged)
   \<and> (\<exists>s. merge_grouping (Merged ex_grouping) = Inr s
          \<and> count_fields s = count_fields ex_merged)"
proof -
  have run: "merge_results ex_parts = Inr ex_merged"
    by (simp add: merge_ex_parts ex_merged_def)
  have perm: "mset ex_parts_rotated = mset ex_parts"
    by (simp add: ex_parts_def ex_parts_rotated_def)
  have grp: "mset (parts (Merged ex_grouping)) = mset ex_parts"
    by (simp add: ex_grouping_def ex_parts_def)
  obtain a where
    a: "merge_results [ex_part 2 ''s2'' 1 0, ex_part 0 ''s1'' 9007199254740992 1] = Inr a"
    using merge_results_returns [of "[ex_part 2 ''s2'' 1 0, ex_part 0 ''s1'' 9007199254740992 1]"]
    by (auto simp: ex_part_def)
  then have inner: "merge_groupings ex_grouping = Inr [a, ex_part 1 ''s2'' 1 0]"
    by (simp add: ex_grouping_def)
  from merge_results_sums [OF run] perm grp inner run show ?thesis
    by blast
qed

text \<open>
  The permutation of the example changes \<open>energy_sum\<close> and \<open>avg_energy\<close>:
  float addition rounds, and \<open>(2 ^ 53 + 1) + 1\<close> is \<open>2 ^ 53\<close> where
  \<open>(1 + 1) + 2 ^ 53\<close> is \<open>2 ^ 53 + 2\<close>.
\<close>

theorem merge_results_energy_sum_counterexample:
  "mset ex_parts_rotated = mset ex_parts
   \<and> map_sum id energy_sum (merge_results ex_parts) = Inr (Fin 9007199254740992)
   \<and> map_sum id energy_sum (merge_results ex_parts_rotated) = Inr (Fin 9007199254740994)
   \<and> map_sum id avg_energy (merge_results ex_parts)
        \<noteq> map_sum id avg_energy (merge_results ex_parts_rotated)"
  by (simp add: merge_ex_parts merge_ex_parts_rotated) (simp add: ex_parts_def ex_parts_rotated_def)

text \<open>
  C6 (amended). Given zero partial results the merger raises nothing: it returns
  the aggregate of nothing, with \<open>total\<close> 0, empty count dictionaries,
  \<open>energy_sum\<close> 0.0, \<open>avg_energy\<close> 0 and \<open>chunks_processed\<close> 0.
\<close>

theorem merge_results_empty:
  "merge_results [] =
     Inr \<lparr>total_events = 0, status_counts = [], sensor_counts = [],
          energy_sum = Fin 0, high_energy_events = 0, avg_energy = Fin 0,
          chunk_id = None, worker_id = None, processing_time = None,
          chunks_processed = Some 0, res_method = None, res_num_workers = None\<rparr>"
  by (simp add: eval_merge)

section \<open>Properties of the execution strategies\<close>

lemma collect_results_map_filter: "collect_results d ns = List.map_filter d ns"
  by (induction ns) (simp_all add: List.map_filter_simps split: option.splits)

lemma length_collect_results:
  "length (collect_results d ns) = length (filter (\<lambda>i. d i \<noteq> None) ns)"
  by (induction ns) (simp_all split: option.splits)

lemma collect_results_all_present:
  "\<forall>i\<in>set ns. d i = Some (g i) \<Longrightarrow> collect_results d ns = map g ns"
  by (induction ns) simp_all

lemma run_workers_snoc:
  "run_workers d el f (chunks @ [c]) =
     (case worker_main f (fst c) (snd c) (int (length chunks)) (el (length chunks)) of
        Inl e \<Rightarrow> run_workers d el f chunks
      | Inr r \<Rightarrow> (run_workers d el f chunks)(length chunks \<mapsto> json_round_trip r))"
  unfolding run_workers_def by (cases c) (simp add: enumerate_append_eq)

lemma run_workers_apply:
  "run_workers d el f chunks i =
     (if i < length chunks
      then case worker_main f (fst (chunks ! i)) (snd (chunks ! i)) (int i) (el i) of
             Inl e \<Rightarrow> d i
           | Inr r \<Rightarrow> Some (json_round_trip r)
      else d i)"
proof (induction chunks arbitrary: i rule: rev_induct)
  case Nil
  show ?case by (simp add: run_workers_def)
next
  case (snoc c chunks)
  show ?case
    by (cases "i = length chunks")
       (auto simp: run_workers_snoc snoc.IH nth_append split: sum.splits)
qed

lemma pool_map_Inr:
  "pool_map g xs = Inr ys \<Longrightarrow> length ys = length xs \<and> (\<forall>i<length xs. g (xs ! i) = Inr (ys ! i))"
proof (induction xs arbitrary: ys)
  case Nil
  then show ?case by simp
next
  case (Cons x xs)
  from Cons.prems obtain y ys' where y: "g x = Inr y" and ys': "pool_map g xs = Inr ys'"
    and ys: "ys = y # ys'"
    by (auto split: sum.splits)
  from Cons.IH [OF ys'] y ys show ?case
    by (auto simp: nth_Cons split: nat.splits)
qed

lemma merge_step_core: "core p = core q \<Longrightarrow> merge_step m p = merge_step m q"
  by (simp add: merge_step_def core_def)

lemma foldl_merge_step_core:
  "map core ps = map core qs \<Longrightarrow> foldl merge_step m ps = foldl merge_step m qs"
proof (induction ps arbitrary: qs m)
  case Nil
  then show ?case by simp
next
  case (Cons p ps)
  then obtain q qs' where qs: "qs = q # qs'" by (cases qs) auto
  with Cons.prems have "core p = core q" "map core ps = map core qs'" by simp_all
  with Cons.IH [of qs'] qs show ?case
    by (simp add: merge_step_core [of p q])
qed

lemma merge_results_core:
  assumes "map core ps = map core qs"
  shows "merge_results ps = merge_results qs"
proof -
  have "length ps = length qs"
    using assms by (rule map_eq_imp_length_eq)
  moreover have "merge_loop ps = merge_loop qs"
    unfolding merge_loop_def using assms by (rule foldl_merge_step_core)
  ultimately show ?thesis
    by (simp add: merge_results_unfold split: sum.splits)
qed

lemma process_chunk_worker_Inr:
  assumes "process_chunk_worker (f, s, c, cid) = Inr y"
  shows "\<exists>res. run_processor f s c = Inr res \<and> y = res\<lparr>chunk_id := Some cid\<rparr>"
  using assms by (auto simp: process_chunk_worker_def split: sum.splits)

lemma label_Inr:
  "label m n res = Inr r \<Longrightarrow> \<exists>a. res = Inr a \<and> r = a\<lparr>res_method := Some m, res_num_workers := Some n\<rparr>"
  by (auto simp: label_def split: sum.splits)

text \<open>
  The JSON round trip changes a count dictionary in its key \<open>None\<close> only, and
  leaves no key \<open>None\<close>.
\<close>

lemma update_new_key: "k \<notin> fst ` set al \<Longrightarrow> AList.update k v al = al @ [(k, v)]"
  by (induction al) auto

lemma json_key_eq: "k \<noteq> None \<Longrightarrow> json_key k = k"
  by (cases k) (simp_all add: json_key_def)

lemma json_key_not_None: "json_key k \<noteq> None"
  by (simp add: json_key_def split: option.splits)

lemma json_fold_distinct:
  assumes "distinct (map fst (acc @ d))" and "None \<notin> fst ` set d"
  shows "foldl (\<lambda>m (k, c). AList.update (json_key k) c m) acc d = acc @ d"
  using assms
proof (induction d arbitrary: acc)
  case Nil
  show ?case by simp
next
  case (Cons e d)
  obtain k c where e: "e = (k, c)" by (cases e)
  from Cons.prems e have k: "k \<noteq> None" and new: "k \<notin> fst ` set acc"
    by force+
  from Cons.prems e have "distinct (map fst ((acc @ [(k, c)]) @ d))" and "None \<notin> fst ` set d"
    by auto
  from Cons.IH [OF this] show ?case
    by (simp add: e json_key_eq [OF k] update_new_key [OF new])
qed

lemma json_counts_distinct:
  "distinct (map fst d) \<Longrightarrow> None \<notin> fst ` set d \<Longrightarrow> json_counts d = d"
  using json_fold_distinct [of "[]" d] by (simp add: json_counts_def)

lemma keys_json_fold:
  "fst ` set (foldl (\<lambda>m (k, c). AList.update (json_key k) c m) acc d)
     = fst ` set acc \<union> json_key ` fst ` set d"
proof (induction d arbitrary: acc)
  case Nil
  show ?case by simp
next
  case (Cons e d)
  obtain k c where e: "e = (k, c)" by (cases e)
  have "fst ` set (AList.update (json_key k) c acc) = insert (json_key k) (fst ` set acc)"
    using dom_update [of "json_key k" c acc] by (simp add: dom_map_of_conv_image_fst)
  then show ?case
    by (simp add: e Cons.IH)
qed

lemma keys_json_counts: "None \<notin> fst ` set (json_counts d)"
proof -
  have "fst ` set (json_counts d) = json_key ` fst ` set d"
    using keys_json_fold [of "[]" d] by (simp add: json_counts_def)
  then show ?thesis
    using json_key_not_None by (metis imageE)
qed

lemma keys_json_round_trip:
  "None \<notin> fst ` set (status_counts (json_round_trip p))"
  "None \<notin> fst ` set (sensor_counts (json_round_trip p))"
  by (simp_all add: json_round_trip_def keys_json_counts)

text \<open>The count dictionaries of a worker have each key once.\<close>

lemma process_event_distinct:
  assumes "process_event p r = Inr p'"
    and "distinct (map fst (status_counts p))" and "distinct (map fst (sensor_counts p))"
  shows "distinct (map fst (status_counts p')) \<and> distinct (map fst (sensor_counts p'))"
  using assms
  by (auto simp: process_event_def Let_def distinct_incr split: sum.splits if_splits)

lemma process_rows_distinct:
  assumes "process_rows s n i rows p = Inr p'"
    and "distinct (map fst (status_counts p))" and "distinct (map fst (sensor_counts p))"
  shows "distinct (map fst (status_counts p')) \<and> distinct (map fst (sensor_counts p'))"
  using assms
proof (induction rows arbitrary: i p)
  case Nil
  then show ?case by simp
next
  case (Cons r rows)
  show ?case
  proof (cases "i < s")
    case True
    with Cons.prems Cons.IH [of "i + 1" p] show ?thesis by simp
  next
    case False
    show ?thesis
    proof (cases "s + n \<le> i")
      case True
      with False Cons.prems show ?thesis by simp
    next
      case past: False
      with False Cons.prems obtain q where q: "process_event p r = Inr q"
        and rest: "process_rows s n (i + 1) rows q = Inr p'"
        by (auto split: sum.splits)
      from process_event_distinct [OF q Cons.prems(2,3)] Cons.IH [OF rest]
      show ?thesis by simp
    qed
  qed
qed

lemma run_processor_distinct:
  assumes "run_processor f s n = Inr res"
  shows "distinct (map fst (status_counts res))" and "distinct (map fst (sensor_counts res))"
proof -
  from assms obtain t where f: "f = TextFile t"
    by (cases f) (simp_all add: run_processor_def)
  with assms obtain p where rows: "process_rows s n 0 (data_rows t) new_processor = Inr p"
    and res: "get_results p = Inr res"
    by (auto simp: run_processor_def split: sum.splits)
  from process_rows_distinct [OF rows]
  have "distinct (map fst (status_counts p)) \<and> distinct (map fst (sensor_counts p))"
    by (simp add: new_processor_def)
  moreover from res have "status_counts res = status_counts p"
    and "sensor_counts res = sensor_counts p"
    by (auto simp: get_results_def split: sum.splits)
  ultimately show "distinct (map fst (status_counts res))"
    and "distinct (map fst (sensor_counts res))"
    by simp_all
qed

lemma keys_merge_loop:
  "fst ` set (status_counts (merge_loop ps)) = (\<Union>p\<in>set ps. fst ` set (status_counts p))"
  "fst ` set (sensor_counts (merge_loop ps)) = (\<Union>p\<in>set ps. fst ` set (sensor_counts p))"
  using dom_status_foldl [of new_processor ps] dom_sensor_foldl [of new_processor ps]
  by (simp_all add: merge_loop_def new_processor_def dom_map_of_conv_image_fst)

text \<open>
  Where the pool returns a result, every worker process writes its file, and the
  files hold what the pool's workers returned, after the JSON round trip.
\<close>

lemma strategies_agree:
  assumes "process_multiprocessing f chunks n = Inr r"
  shows "\<exists>s. process_subprocess d el f chunks n = Inr s
           \<and> None \<notin> fst ` set (status_counts s) \<and> None \<notin> fst ` set (sensor_counts s)
           \<and> (None \<notin> fst ` set (status_counts r) \<and> None \<notin> fst ` set (sensor_counts r)
                \<longrightarrow> s = r\<lparr>res_method := Some ''subprocess''\<rparr>)"
proof -
  define args where
    "args = map (\<lambda>(i, (start, count)). (f, start, count, int i)) (enumerate 0 chunks)"
  from assms obtain ps where n: "1 \<le> n" and ps: "pool_map process_chunk_worker args = Inr ps"
    and lab: "label ''multiprocessing'' n (merge_results ps) = Inr r"
    by (auto simp: process_multiprocessing_def args_def Let_def split: if_splits sum.splits)
  from label_Inr [OF lab] obtain a where a: "merge_results ps = Inr a"
    and r: "r = a\<lparr>res_method := Some ''multiprocessing'', res_num_workers := Some n\<rparr>"
    by blast
  from pool_map_Inr [OF ps] have len: "length ps = length chunks"
    and each: "\<forall>i<length chunks. process_chunk_worker (args ! i) = Inr (ps ! i)"
    by (simp_all add: args_def)
  have arg: "args ! i = (f, fst (chunks ! i), snd (chunks ! i), int i)" if "i < length chunks" for i
    using that by (simp add: args_def nth_enumerate_eq split_beta)
  define w where "w = (\<lambda>i. json_round_trip ((ps ! i)\<lparr>chunk_id := None, worker_id := Some (int i),
                                     processing_time := Some (el i)\<rparr>))"
  have worker: "\<exists>res. run_processor f (fst (chunks ! i)) (snd (chunks ! i)) = Inr res
                  \<and> ps ! i = res\<lparr>chunk_id := Some (int i)\<rparr>"
    if i: "i < length chunks" for i
  proof -
    from each i have "process_chunk_worker (args ! i) = Inr (ps ! i)"
      by blast
    then have "process_chunk_worker (f, fst (chunks ! i), snd (chunks ! i), int i) = Inr (ps ! i)"
      by (simp only: arg [OF i])
    from process_chunk_worker_Inr [OF this] show ?thesis .
  qed
  have present: "run_workers d el f chunks i = Some (w i)" if i: "i < length chunks" for i
  proof -
    from worker [OF i] obtain res
      where res: "run_processor f (fst (chunks ! i)) (snd (chunks ! i)) = Inr res"
        and p: "ps ! i = res\<lparr>chunk_id := Some (int i)\<rparr>"
      by blast
    have "chunk_id res = None"
      using res
      by (auto simp: run_processor_def get_results_def split: path_entry.splits sum.splits)
    then have "res\<lparr>chunk_id := None\<rparr> = res"
      by simp
    then have "(ps ! i)\<lparr>chunk_id := None, worker_id := Some (int i),
                        processing_time := Some (el i)\<rparr>
               = res\<lparr>worker_id := Some (int i), processing_time := Some (el i)\<rparr>"
      by (simp add: p)
    then have "w i = json_round_trip (res\<lparr>worker_id := Some (int i),
                                          processing_time := Some (el i)\<rparr>)"
      by (simp only: w_def)
    with res i show ?thesis
      by (simp add: run_workers_apply worker_main_def)
  qed
  define qs where "qs = map w [0..<length chunks]"
  have coll: "collect_results (run_workers d el f chunks) [0..<length chunks] = qs"
    unfolding qs_def by (rule collect_results_all_present) (simp add: present)
  have "map total_events qs = map total_events ps"
    by (rule nth_equalityI) (simp_all add: len qs_def w_def json_round_trip_def)
  then have "isl (merge_results qs) = isl (merge_results ps)"
    by (simp add: isl_merge_results)
  with a have "\<not> isl (merge_results qs)"
    by simp
  then obtain b where b: "merge_results qs = Inr b"
    by (cases "merge_results qs") auto
  define s where "s = b\<lparr>res_method := Some ''subprocess'', res_num_workers := Some n\<rparr>"
  have run: "process_subprocess d el f chunks n = Inr s"
    by (simp add: process_subprocess_def Let_def coll b label_def s_def)
  have "None \<notin> fst ` set (status_counts q) \<and> None \<notin> fst ` set (sensor_counts q)"
    if "q \<in> set qs" for q
    using that keys_json_round_trip by (auto simp: qs_def w_def simp del: image_iff)
  then have keys: "None \<notin> fst ` set (status_counts s)" "None \<notin> fst ` set (sensor_counts s)"
    using merge_results_Inr(2,3) [OF b] keys_merge_loop [of qs]
    by (auto simp: s_def)
  have same: "s = r\<lparr>res_method := Some ''subprocess''\<rparr>"
    if none: "None \<notin> fst ` set (status_counts r) \<and> None \<notin> fst ` set (sensor_counts r)"
  proof -
    from none have ka: "None \<notin> (\<Union>p\<in>set ps. fst ` set (status_counts p))"
      and kb: "None \<notin> (\<Union>p\<in>set ps. fst ` set (sensor_counts p))"
      using merge_results_Inr(2,3) [OF a] keys_merge_loop [of ps]
      by (simp_all add: r)
    have "core (w i) = core (ps ! i)" if i: "i < length chunks" for i
    proof -
      from worker [OF i] obtain res
        where res: "run_processor f (fst (chunks ! i)) (snd (chunks ! i)) = Inr res"
          and p: "ps ! i = res\<lparr>chunk_id := Some (int i)\<rparr>"
        by blast
      from i len have "ps ! i \<in> set ps" by simp
      with ka kb have "None \<notin> fst ` set (status_counts (ps ! i))"
        and "None \<notin> fst ` set (sensor_counts (ps ! i))"
        by blast+
      with run_processor_distinct [OF res]
      have "json_counts (status_counts (ps ! i)) = status_counts (ps ! i)"
        and "json_counts (sensor_counts (ps ! i)) = sensor_counts (ps ! i)"
        by (simp_all add: p json_counts_distinct)
      then show ?thesis
        by (simp add: w_def core_def json_round_trip_def)
    qed
    then have "map core qs = map core ps"
      by (intro nth_equalityI) (simp_all add: len qs_def)
    then have "merge_results qs = merge_results ps"
      by (rule merge_results_core)
    with a b have "b = a" by simp
    then show ?thesis by (simp add: s_def r)
  qed
  from run keys same show ?thesis by blast
qed

text \<open>
  The launcher's own merge skips a missing output file in the same way.
\<close>

lemma sp_merge_loop_skips:
  assumes "\<forall>i\<in>set ns. \<forall>r. output_dir i = Some r \<longrightarrow> processing_time r \<noteq> None"
  shows "sp_merge_loop output_dir ns (m, c, t) =
           Inr (foldl merge_step m (collect_results output_dir ns),
                c + int (length (collect_results output_dir ns)),
                foldl float_add t (map (the \<circ> processing_time) (collect_results output_dir ns)))"
  using assms
proof (induction ns arbitrary: m c t)
  case Nil
  show ?case by simp
next
  case (Cons i ns)
  from Cons.prems have rest:
    "\<forall>i\<in>set ns. \<forall>r. output_dir i = Some r \<longrightarrow> processing_time r \<noteq> None"
    by simp
  show ?case
  proof (cases "output_dir i")
    case None
    then show ?thesis by (simp add: Cons.IH [OF rest])
  next
    case (Some r)
    with Cons.prems obtain t' where "processing_time r = Some t'" by auto
    with Some show ?thesis by (simp add: Cons.IH [OF rest])
  qed
qed

lemma sp_merge_results_skips_missing:
  assumes "\<forall>i<nat n. \<forall>r. output_dir i = Some r \<longrightarrow> processing_time r \<noteq> None"
    and "sum_list (map total_events (collect_results output_dir [0..<nat n])) \<le> 9007199254740992"
  shows "\<exists>m t. sp_merge_results output_dir n = Inr (m, t)
           \<and> chunks_processed m
               = Some (int (length (filter (\<lambda>i. output_dir i \<noteq> None) [0..<nat n])))
           \<and> total_events m = sum_list (map total_events (collect_results output_dir [0..<nat n]))"
proof -
  define present where "present = collect_results output_dir [0..<nat n]"
  have loop: "sp_merge_loop output_dir [0..<nat n] (new_processor, 0, Fin 0)
      = Inr (merge_loop present, int (length present),
             foldl float_add (Fin 0) (map (the \<circ> processing_time) present))"
    using assms(1) by (simp add: sp_merge_loop_skips merge_loop_def present_def)
  have tot: "total_events (merge_loop present) = sum_list (map total_events present)"
    by (rule total_events_merge_loop)
  have "sum_list (map total_events present) \<le> 9007199254740992"
    using assms(2) by (simp add: present_def)
  then have "\<not> isl (average (energy_sum (merge_loop present)) (total_events (merge_loop present)))"
    by (simp add: tot average_returns)
  then obtain avg where
    "average (energy_sum (merge_loop present)) (total_events (merge_loop present)) = Inr avg"
    by (cases "average (energy_sum (merge_loop present)) (total_events (merge_loop present))") auto
  then show ?thesis
    by (simp add: sp_merge_results_def loop tot)
       (simp add: present_def length_collect_results)
qed

text \<open>
  With no worker the planner divides by zero, whatever the method. With at least
  one worker, a file that reads as text, rows that have the three cells, the
  energy cell a number, and at most \<open>2 ^ 53\<close> rows counted over the chunks, the
  pool strategy returns a result.
\<close>

lemma process_events_zero_workers:
  "files input_file = Some entry \<Longrightarrow> count_data_rows entry = Inr total_rows
   \<Longrightarrow> process_events files output_dir elapsed input_file (Some 0) meth = Inl ZeroDivisionError"
  by (simp add: process_events_def split_into_chunks_def)

lemma process_event_returns:
  assumes "row_status r \<noteq> NoColumn" and "row_sensor_id r \<noteq> NoColumn"
    and "\<exists>x. row_energy r = Cell (Some x)"
  shows "\<exists>p'. process_event p r = Inr p' \<and> total_events p' = total_events p + 1"
  using assms
  by (cases "row_status r"; cases "row_sensor_id r")
     (auto simp: process_event_def get_item_def float_of_cell_def Let_def)

lemma process_rows_returns:
  assumes "\<forall>r\<in>set rows. row_status r \<noteq> NoColumn \<and> row_sensor_id r \<noteq> NoColumn
                          \<and> (\<exists>x. row_energy r = Cell (Some x))"
  shows "\<exists>p'. process_rows s n i rows p = Inr p'
           \<and> total_events p \<le> total_events p'
           \<and> total_events p' \<le> total_events p + int (length rows)"
  using assms
proof (induction rows arbitrary: i p)
  case Nil
  show ?case by simp
next
  case (Cons r rows)
  from Cons.prems have r: "row_status r \<noteq> NoColumn" "row_sensor_id r \<noteq> NoColumn"
      "\<exists>x. row_energy r = Cell (Some x)"
    and rest: "\<forall>r\<in>set rows. row_status r \<noteq> NoColumn \<and> row_sensor_id r \<noteq> NoColumn
                              \<and> (\<exists>x. row_energy r = Cell (Some x))"
    by simp_all
  from process_event_returns [OF r, of p] obtain q
    where q: "process_event p r = Inr q" "total_events q = total_events p + 1" by blast
  from Cons.IH [OF rest, of "i + 1" p] obtain p1
    where p1: "process_rows s n (i + 1) rows p = Inr p1" "total_events p \<le> total_events p1"
      "total_events p1 \<le> total_events p + int (length rows)" by blast
  from Cons.IH [OF rest, of "i + 1" q] obtain p2
    where p2: "process_rows s n (i + 1) rows q = Inr p2" "total_events q \<le> total_events p2"
      "total_events p2 \<le> total_events q + int (length rows)" by blast
  show ?case
    using q p1 p2 by auto
qed

lemma run_processor_returns:
  assumes "\<forall>r\<in>set (data_rows f). row_status r \<noteq> NoColumn \<and> row_sensor_id r \<noteq> NoColumn
                                    \<and> (\<exists>x. row_energy r = Cell (Some x))"
    and "int (length (data_rows f)) \<le> 9007199254740992"
  shows "\<exists>res. run_processor (TextFile f) s n = Inr res
           \<and> total_events res \<le> int (length (data_rows f))"
proof -
  from process_rows_returns [OF assms(1), of s n 0 new_processor] obtain p
    where p: "process_rows s n 0 (data_rows f) new_processor = Inr p"
      "total_events p \<le> int (length (data_rows f))"
    by (auto simp: new_processor_def)
  have "\<not> isl (average (energy_sum p) (total_events p))"
    using p(2) assms(2) by (intro average_returns) simp
  then obtain avg where "average (energy_sum p) (total_events p) = Inr avg"
    by (cases "average (energy_sum p) (total_events p)") auto
  with p show ?thesis
    by (simp add: run_processor_def get_results_def)
qed

lemma pool_map_returns:
  assumes "\<forall>x\<in>set xs. \<exists>y. g x = Inr y \<and> P y"
  shows "\<exists>ys. pool_map g xs = Inr ys \<and> length ys = length xs \<and> (\<forall>y\<in>set ys. P y)"
  using assms
proof (induction xs)
  case Nil
  show ?case by simp
next
  case (Cons x xs)
  from Cons.prems obtain y where y: "g x = Inr y" "P y" by auto
  from Cons.prems have "\<forall>x\<in>set xs. \<exists>y. g x = Inr y \<and> P y" by simp
  from Cons.IH [OF this] obtain ys where "pool_map g xs = Inr ys" "length ys = length xs"
    "\<forall>y\<in>set ys. P y" by blast
  with y show ?case by simp
qed

lemma sum_list_bounded:
  fixes g :: "'a \<Rightarrow> int"
  assumes "\<forall>y\<in>set ys. g y \<le> L"
  shows "sum_list (map g ys) \<le> int (length ys) * L"
  using assms by (induction ys) (auto simp: algebra_simps)

lemma process_events_multiprocessing_returns:
  assumes "files input_file = Some (TextFile f)" and "1 \<le> num_workers"
    and "\<forall>r\<in>set (data_rows f). row_status r \<noteq> NoColumn \<and> row_sensor_id r \<noteq> NoColumn
                                    \<and> (\<exists>x. row_energy r = Cell (Some x))"
    and "num_workers * int (length (data_rows f)) \<le> 9007199254740992"
  shows "\<exists>r. process_events files output_dir elapsed input_file (Some num_workers)
                (Some ''multiprocessing'')
              = Inr r"
proof -
  define L where "L = int (length (data_rows f))"
  have L0: "0 \<le> L" by (simp add: L_def)
  have "1 * L \<le> num_workers * L"
    using assms(2) L0 by (intro mult_right_mono) simp_all
  with assms(4) have L: "L \<le> 9007199254740992" by (simp add: L_def)
  obtain chunks where
    chunks: "split_into_chunks (int (line_count f) - 1) num_workers = Inr chunks"
    and len: "int (length chunks) = num_workers"
    using assms(2) by (simp add: split_into_chunks_def Let_def)
  define args where
    "args = map (\<lambda>(i, (start, count)). (TextFile f, start, count, int i)) (enumerate 0 chunks)"
  have "\<forall>x\<in>set args. \<exists>y. process_chunk_worker x = Inr y \<and> total_events y \<le> L"
  proof
    fix x assume "x \<in> set args"
    then obtain s n i where x: "x = (TextFile f, s, n, i)"
      by (auto simp: args_def)
    from run_processor_returns [OF assms(3), of s n] L obtain res
      where "run_processor (TextFile f) s n = Inr res" "total_events res \<le> L"
      by (auto simp: L_def)
    then show "\<exists>y. process_chunk_worker x = Inr y \<and> total_events y \<le> L"
      by (simp add: x process_chunk_worker_def)
  qed
  from pool_map_returns [OF this] obtain ps
    where ps: "pool_map process_chunk_worker args = Inr ps" "length ps = length args"
      "\<forall>y\<in>set ps. total_events y \<le> L" by blast
  have "sum_list (map total_events ps) \<le> int (length ps) * L"
    using ps(3) by (rule sum_list_bounded)
  also have "int (length ps) = num_workers"
    using ps(2) len by (simp add: args_def)
  finally have "sum_list (map total_events ps) \<le> 9007199254740992"
    using assms(4) by (simp add: L_def)
  from merge_results_returns [OF this] obtain a where "merge_results ps = Inr a" by blast
  with ps(1) chunks assms(1,2) show ?thesis
    by (simp add: process_events_def count_data_rows_def process_multiprocessing_def Let_def
          label_def flip: args_def)
qed

lemmas eval_engine =
  process_events_def split_into_chunks_def count_data_rows_def process_subprocess_def
  process_multiprocessing_def process_chunk_worker_def run_workers_def worker_main_def
  run_processor_def process_event_def get_item_def float_of_cell_def get_results_def
  label_def json_round_trip_def json_counts_def json_key_def format_method_def upto.simps
  ex_ok_def ex_warn_def ex_bad_def ex_file_def ex_files_def ex_dir_def ex_elapsed_def

text \<open>
  C3 (amended). In the out-of-process strategy a worker whose output file is
  missing after all processes have ended is skipped: provided the rows counted
  by the files that exist are at most \<open>2 ^ 53\<close>, the strategy returns the
  aggregate merged from exactly those files, \<open>chunks_processed\<close> being their
  number, and raises no error.
\<close>

theorem process_subprocess_skips_missing:
  assumes "sum_list (map total_events
             (collect_results (run_workers output_dir elapsed f chunks) [0..<length chunks]))
           \<le> 9007199254740992"
  shows "\<exists>a. merge_results
               (List.map_filter (run_workers output_dir elapsed f chunks) [0..<length chunks])
             = Inr a
           \<and> process_subprocess output_dir elapsed f chunks n
               = Inr (a\<lparr>res_method := Some ''subprocess'', res_num_workers := Some n\<rparr>)
           \<and> chunks_processed a
               = Some (int (length (filter (\<lambda>i. run_workers output_dir elapsed f chunks i \<noteq> None)
                                      [0..<length chunks])))"
proof -
  define present where
    "present = collect_results (run_workers output_dir elapsed f chunks) [0..<length chunks]"
  from assms obtain a where a: "merge_results present = Inr a"
    unfolding present_def by (rule merge_results_returns [THEN exE])
  have "chunks_processed a = Some (int (length present))"
    using a by (rule merge_results_Inr(7))
  then have "chunks_processed a
      = Some (int (length (filter (\<lambda>i. run_workers output_dir elapsed f chunks i \<noteq> None)
                             [0..<length chunks])))"
    by (simp add: present_def length_collect_results)
  moreover have "process_subprocess output_dir elapsed f chunks n
      = Inr (a\<lparr>res_method := Some ''subprocess'', res_num_workers := Some n\<rparr>)"
    using a by (simp add: process_subprocess_def Let_def label_def present_def)
  moreover have "merge_results
      (List.map_filter (run_workers output_dir elapsed f chunks) [0..<length chunks]) = Inr a"
    using a by (simp add: present_def collect_results_map_filter)
  ultimately show ?thesis by blast
qed

lemma ex_ok_bad_dir:
  "run_workers ex_dir ex_elapsed (ex_file [ex_ok, ex_bad]) [(0, 1), (1, 1)] =
     ex_dir(0 \<mapsto>
       \<lparr>total_events = 1, status_counts = [(Some ''ok'', 1)],
        sensor_counts = [(Some ''s1'', 1)],
        energy_sum = Fin 150, high_energy_events = 1, avg_energy = Fin 150,
        chunk_id = None, worker_id = Some 0, processing_time = Some (Fin (1 / 4)),
        chunks_processed = None, res_method = None, res_num_workers = None\<rparr>)"
  by (simp add: eval_engine eval_merge eval_float)

theorem process_subprocess_skips_missing_witness:
  "sum_list (map total_events
     (collect_results (run_workers ex_dir ex_elapsed (ex_file [ex_ok, ex_bad]) [(0, 1), (1, 1)])
        [0..<length [(0::int, 1::int), (1, 1)]]))
     \<le> 9007199254740992
   \<and> (\<exists>a. process_subprocess ex_dir ex_elapsed (ex_file [ex_ok, ex_bad]) [(0, 1), (1, 1)] 2
             = Inr (a\<lparr>res_method := Some ''subprocess'', res_num_workers := Some 2\<rparr>)
          \<and> chunks_processed a = Some 1)"
proof -
  have b: "sum_list (map total_events
     (collect_results (run_workers ex_dir ex_elapsed (ex_file [ex_ok, ex_bad]) [(0, 1), (1, 1)])
        [0..<length [(0::int, 1::int), (1, 1)]]))
     \<le> 9007199254740992"
    by (simp add: ex_ok_bad_dir) (simp add: ex_dir_def)
  have c: "length (filter (\<lambda>i. run_workers ex_dir ex_elapsed (ex_file [ex_ok, ex_bad])
                                 [(0, 1), (1, 1)] i \<noteq> None)
                     [0..<length [(0::int, 1::int), (1, 1)]]) = 1"
    by (simp add: ex_ok_bad_dir) (simp add: ex_dir_def)
  from process_subprocess_skips_missing [OF b, of 2] b show ?thesis
    unfolding c by auto
qed

text \<open>
  A run of two workers on a file of two rows, the second row malformed: the
  second worker raises and writes nothing, and the job returns the aggregate of
  the first chunk alone.
\<close>

theorem process_subprocess_missing_counterexample:
  "run_workers ex_dir ex_elapsed (ex_file [ex_ok, ex_bad]) [(0, 1), (1, 1)] 1 = None
   \<and> process_events (ex_files [ex_ok, ex_bad]) ex_dir ex_elapsed ''events.csv'' (Some 2)
       (Some ''subprocess'')
     = Inr \<lparr>total_events = 1, status_counts = [(Some ''ok'', 1)],
            sensor_counts = [(Some ''s1'', 1)],
            energy_sum = Fin 150, high_energy_events = 1, avg_energy = Fin 150,
            chunk_id = None, worker_id = None, processing_time = None,
            chunks_processed = Some 1, res_method = Some ''subprocess'',
            res_num_workers = Some 2\<rparr>"
  by (simp add: eval_engine eval_merge eval_float)

text \<open>
  A job of one chunk whose only worker raises: the merge receives no partial
  result and the job returns the empty aggregate.
\<close>

theorem merge_results_empty_counterexample:
  "count_data_rows (ex_file [ex_bad]) = Inr 1
   \<and> split_into_chunks 1 1 = Inr [(0, 1)]
   \<and> collect_results (run_workers ex_dir ex_elapsed (ex_file [ex_bad]) [(0, 1)]) [0..<1] = []
   \<and> process_events (ex_files [ex_bad]) ex_dir ex_elapsed ''events.csv'' (Some 1)
       (Some ''subprocess'')
     = Inr \<lparr>total_events = 0, status_counts = [], sensor_counts = [],
            energy_sum = Fin 0, high_energy_events = 0, avg_energy = Fin 0,
            chunk_id = None, worker_id = None, processing_time = None,
            chunks_processed = Some 0, res_method = Some ''subprocess'',
            res_num_workers = Some 1\<rparr>"
  by (simp add: eval_engine eval_merge eval_float)

text \<open>
  C7 (amended). For every input file, number of workers and earlier content of
  the output directory on which the in-process pool strategy returns a result:
  the out-of-process strategy returns a result too, and no count dictionary of
  that result has the key \<open>None\<close>. When no count dictionary of the in-process
  result has the key \<open>None\<close>, that is when no processed row ends before its
  \<open>status\<close> or \<open>sensor_id\<close> cell, the out-of-process result is the in-process
  result but for the \<open>method\<close> label; otherwise the two differ. Two sums
  that are both NaN count as the same value here. The pool strategy returns a
  result on every file of well-formed rows
  (\<open>process_events_multiprocessing_returns\<close>).
\<close>

theorem process_events_strategies_agree:
  assumes "process_events files output_dir elapsed input_file num_workers
             (Some ''multiprocessing'')
           = Inr r"
  shows "\<exists>s. process_events files output_dir elapsed input_file num_workers (Some ''subprocess'')
               = Inr s
           \<and> None \<notin> fst ` set (status_counts s) \<and> None \<notin> fst ` set (sensor_counts s)
           \<and> (None \<notin> fst ` set (status_counts r) \<and> None \<notin> fst ` set (sensor_counts r)
                \<longrightarrow> s = r\<lparr>res_method := Some ''subprocess''\<rparr>)"
proof -
  from assms obtain entry total_rows n chunks where f: "files input_file = Some entry"
    and t: "count_data_rows entry = Inr total_rows"
    and n: "num_workers = Some n"
    and chunks: "split_into_chunks total_rows n = Inr chunks"
    and mp: "process_multiprocessing entry chunks n = Inr r"
    by (auto simp: process_events_def split: option.splits sum.splits)
  from strategies_agree [OF mp, of output_dir elapsed] f t n chunks show ?thesis
    by (simp add: process_events_def)
qed

theorem process_events_strategies_agree_witness:
  "process_events (ex_files [ex_ok, ex_warn]) ex_dir ex_elapsed ''events.csv'' (Some 2)
     (Some ''multiprocessing'')
     = Inr \<lparr>total_events = 2, status_counts = [(Some ''ok'', 1), (Some ''warning'', 1)],
            sensor_counts = [(Some ''s1'', 1), (Some ''s2'', 1)],
            energy_sum = Fin 200, high_energy_events = 1, avg_energy = Fin 100,
            chunk_id = None, worker_id = None, processing_time = None,
            chunks_processed = Some 2, res_method = Some ''multiprocessing'',
            res_num_workers = Some 2\<rparr>
   \<and> process_events (ex_files [ex_ok, ex_warn]) ex_dir ex_elapsed ''events.csv'' (Some 2)
       (Some ''subprocess'')
     = Inr \<lparr>total_events = 2, status_counts = [(Some ''ok'', 1), (Some ''warning'', 1)],
            sensor_counts = [(Some ''s1'', 1), (Some ''s2'', 1)],
            energy_sum = Fin 200, high_energy_events = 1, avg_energy = Fin 100,
            chunk_id = None, worker_id = None, processing_time = None,
            chunks_processed = Some 2, res_method = Some ''subprocess'',
            res_num_workers = Some 2\<rparr>"
proof -
  have mp: "process_events (ex_files [ex_ok, ex_warn]) ex_dir ex_elapsed ''events.csv'' (Some 2)
              (Some ''multiprocessing'')
     = Inr \<lparr>total_events = 2, status_counts = [(Some ''ok'', 1), (Some ''warning'', 1)],
            sensor_counts = [(Some ''s1'', 1), (Some ''s2'', 1)],
            energy_sum = Fin 200, high_energy_events = 1, avg_energy = Fin 100,
            chunk_id = None, worker_id = None, processing_time = None,
            chunks_processed = Some 2, res_method = Some ''multiprocessing'',
            res_num_workers = Some 2\<rparr>"
    by (simp add: eval_engine eval_merge eval_float)
  from process_events_strategies_agree [OF mp] mp show ?thesis
    by auto
qed

text \<open>
  Two runs of two workers on a file of two rows. The first row malformed: the
  pool re-raises the first worker's ValueError, and the out-of-process
  strategy returns the aggregate of the second chunk. The first row without
  its status cell: the pool counts it under the key \<open>None\<close>, and the
  out-of-process strategy under the key \<open>'null'\<close>.
\<close>

theorem process_events_strategies_counterexample:
  "process_events (ex_files [ex_bad, ex_ok]) ex_dir ex_elapsed ''events.csv'' (Some 2)
     (Some ''multiprocessing'')
     = Inl (ValueError ''could not convert string to float'')
   \<and> process_events (ex_files [ex_bad, ex_ok]) ex_dir ex_elapsed ''events.csv'' (Some 2)
       (Some ''subprocess'')
     = Inr \<lparr>total_events = 1, status_counts = [(Some ''ok'', 1)],
            sensor_counts = [(Some ''s1'', 1)],
            energy_sum = Fin 150, high_energy_events = 1, avg_energy = Fin 150,
            chunk_id = None, worker_id = None, processing_time = None,
            chunks_processed = Some 1, res_method = Some ''subprocess'',
            res_num_workers = Some 2\<rparr>
   \<and> process_events (ex_files [ex_short, ex_ok]) ex_dir ex_elapsed ''events.csv'' (Some 2)
       (Some ''multiprocessing'')
     = Inr \<lparr>total_events = 2, status_counts = [(None, 1), (Some ''ok'', 1)],
            sensor_counts = [(Some ''s1'', 2)],
            energy_sum = Fin 300, high_energy_events = 2, avg_energy = Fin 150,
            chunk_id = None, worker_id = None, processing_time = None,
            chunks_processed = Some 2, res_method = Some ''multiprocessing'',
            res_num_workers = Some 2\<rparr>
   \<and> process_events (ex_files [ex_short, ex_ok]) ex_dir ex_elapsed ''events.csv'' (Some 2)
       (Some ''subprocess'')
     = Inr \<lparr>total_events = 2, status_counts = [(Some ''null'', 1), (Some ''ok'', 1)],
            sensor_counts = [(Some ''s1'', 2)],
            energy_sum = Fin 300, high_energy_events = 2, avg_energy = Fin 150,
            chunk_id = None, worker_id = None, processing_time = None,
            chunks_processed = Some 2, res_method = Some ''subprocess'',
            res_num_workers = Some 2\<rparr>"
  by (simp add: eval_engine eval_merge eval_float ex_short_def)

text \<open>
  C5 (amended). Given an input path that exists and reads as text, so that its
  rows are counted, and a number of workers that is an integer other than zero,
  \<open>process_events\<close> plans the chunks and selects the strategy from the method:
  the pool for \<open>'multiprocessing'\<close>, the worker processes for \<open>'subprocess'\<close>,
  and for every other method, \<open>None\<close> among them, it raises
  \<open>ValueError('Unknown method: ...')\<close>, so that no strategy runs and nothing is
  merged.
\<close>

theorem process_events_unknown_method:
  assumes "files input_file = Some entry" and "count_data_rows entry = Inr total_rows"
    and "n \<noteq> 0"
  shows "\<exists>chunks. split_into_chunks total_rows n = Inr chunks
      \<and> process_events files output_dir elapsed input_file (Some n) (Some ''multiprocessing'')
          = process_multiprocessing entry chunks n
      \<and> process_events files output_dir elapsed input_file (Some n) (Some ''subprocess'')
          = process_subprocess output_dir elapsed entry chunks n
      \<and> (meth \<noteq> Some ''multiprocessing'' \<and> meth \<noteq> Some ''subprocess'' \<longrightarrow>
           process_events files output_dir elapsed input_file (Some n) meth
             = Inl (ValueError (''Unknown method: '' @ format_method meth)))"
  using assms by (simp add: process_events_def split_into_chunks_def Let_def)

theorem process_events_unknown_method_witness:
  "ex_files [ex_ok] ''events.csv'' = Some (ex_file [ex_ok])
   \<and> count_data_rows (ex_file [ex_ok]) = Inr 1
   \<and> process_events (ex_files [ex_ok]) ex_dir ex_elapsed ''events.csv'' (Some 4) (Some ''threads'')
       = Inl (ValueError ''Unknown method: threads'')
   \<and> process_events (ex_files [ex_ok]) ex_dir ex_elapsed ''events.csv'' (Some 4) None
       = Inl (ValueError ''Unknown method: None'')"
proof -
  have f: "ex_files [ex_ok] ''events.csv'' = Some (ex_file [ex_ok])"
    by (simp add: ex_files_def)
  have t: "count_data_rows (ex_file [ex_ok]) = Inr 1"
    by (simp add: count_data_rows_def ex_file_def)
  have n: "(4::int) \<noteq> 0"
    by simp
  from process_events_unknown_method
         [where files = "ex_files [ex_ok]" and input_file = "''events.csv''"
            and meth = "Some ''threads''" and output_dir = ex_dir and elapsed = ex_elapsed,
          OF f t n]
       process_events_unknown_method
         [where files = "ex_files [ex_ok]" and input_file = "''events.csv''"
            and meth = None and output_dir = ex_dir and elapsed = ex_elapsed, OF f t n]
       f t
  show ?thesis by (auto simp: format_method_def)
qed

text \<open>
  An unknown method on a path that exists, with other errors than that for the
  method: with no worker the planner's division by zero comes before the look
  at the method; where the request leaves the number of workers \<open>None\<close> the
  planner's division raises TypeError; and where the bytes at the path do not
  decode, the count of the rows raises UnicodeDecodeError.
\<close>

theorem process_events_unknown_method_counterexample:
  "ex_files [ex_ok] ''events.csv'' = Some (ex_file [ex_ok])
   \<and> process_events (ex_files [ex_ok]) ex_dir ex_elapsed ''events.csv'' (Some 0) (Some ''threads'')
       = Inl ZeroDivisionError
   \<and> process_events (ex_files [ex_ok]) ex_dir ex_elapsed ''events.csv'' None (Some ''threads'')
       = Inl TypeError
   \<and> ex_binary ''events.bin'' = Some (Unreadable UnicodeDecodeError)
   \<and> process_events ex_binary ex_dir ex_elapsed ''events.bin'' (Some 4) (Some ''threads'')
       = Inl UnicodeDecodeError"
  by (simp add: process_events_def split_into_chunks_def count_data_rows_def ex_files_def
        ex_file_def ex_binary_def)

section \<open>Properties of the job store\<close>

lemma get_job_map_entry:
  "get_job (AList.map_entry k f jobs) k = map_option f (get_job jobs k)"
  by (simp add: get_job_def map_of_map_entry split: option.splits)

lemma job_status_set_status: "job_status (set_status status now j) = status"
  by (simp add: set_status_def Let_def)

lemma has_job_iff: "has_job jobs job_id \<longleftrightarrow> job_id \<in> fst ` set jobs"
  by (simp add: has_job_def map_of_eq_None_iff)

text \<open>
  C4 (amended). The job store checks no transition: for a registered job in any
  state, terminal or not, \<open>update_job_status\<close> stores the status it is given,
  \<open>complete_job\<close> stores \<open>COMPLETED\<close> and \<open>fail_job\<close> stores \<open>FAILED\<close>, and none of
  them can fail. The one guard is in the cancel endpoint of main.py: it answers
  HTTP 400 and leaves the store as it is unless the job is \<open>PENDING\<close> or
  \<open>RUNNING\<close>, and otherwise sets the status \<open>CANCELLED\<close>.
\<close>

theorem job_store_accepts_every_transition:
  assumes "get_job jobs job_id = Some j"
  shows "map_option job_status (get_job (update_job_status jobs job_id status now) job_id)
           = Some status
       \<and> map_option job_status (get_job (complete_job jobs job_id results now) job_id)
           = Some COMPLETED
       \<and> map_option job_status (get_job (fail_job jobs job_id err now) job_id)
           = Some FAILED
       \<and> cancel_job jobs job_id now
           = (if job_status j = PENDING \<or> job_status j = RUNNING
              then Inr (update_job_status jobs job_id CANCELLED now)
              else Inl (HTTPException 400))"
proof -
  have h: "has_job jobs job_id"
    using assms by (simp add: has_job_def get_job_def)
  show ?thesis
    using assms h
    by (simp add: update_job_status_def complete_job_def fail_job_def cancel_job_def
          get_job_map_entry job_status_set_status)
qed

theorem job_store_accepts_every_transition_witness:
  "get_job ex_store ''a'' = Some (ex_job ''a'' COMPLETED ''2024-01-01T10:00:00'' (Some ''2024-01-01T10:05:00''))
   \<and> map_option job_status (get_job (update_job_status ex_store ''a'' RUNNING ''2024-02-01T10:00:00'') ''a'')
       = Some RUNNING
   \<and> cancel_job ex_store ''a'' ''2024-02-01T10:00:00'' = Inl (HTTPException 400)"
proof -
  have g: "get_job ex_store ''a''
           = Some (ex_job ''a'' COMPLETED ''2024-01-01T10:00:00'' (Some ''2024-01-01T10:05:00''))"
    by (simp add: get_job_def ex_store_def)
  from job_store_accepts_every_transition [OF g, of RUNNING "''2024-02-01T10:00:00''"] g
  show ?thesis by (simp add: ex_job_def)
qed

text \<open>
  A completed job is set back to \<open>PENDING\<close>: the store takes the transition and
  changes the record.
\<close>

theorem update_job_status_terminal_counterexample:
  "update_job_status
     [(''a'', ex_job ''a'' COMPLETED ''2024-01-01T10:00:00'' (Some ''2024-01-01T10:05:00''))]
     ''a'' PENDING ''2024-02-01T10:00:00''
   = [(''a'', ex_job ''a'' PENDING ''2024-01-01T10:00:00'' (Some ''2024-01-01T10:05:00''))]"
  by (simp add: update_job_status_def has_job_def set_status_def ex_job_def falsy_def)

text \<open>
  C9. Each of \<open>update_job_status\<close>, \<open>update_progress\<close>, \<open>complete_job\<close> and
  \<open>fail_job\<close>, called with a job id that the registry does not hold, returns
  with the registry as it was; none of them has a path that raises.
\<close>

theorem unknown_job_id_no_op:
  assumes "job_id \<notin> fst ` set jobs"
  shows "update_job_status jobs job_id status now = jobs
       \<and> update_progress jobs job_id progress = jobs
       \<and> complete_job jobs job_id results now = jobs
       \<and> fail_job jobs job_id err now = jobs"
  using assms
  by (simp add: update_job_status_def update_progress_def complete_job_def fail_job_def
        has_job_iff)

theorem unknown_job_id_no_op_witness:
  "''zz'' \<notin> fst ` set ex_store
   \<and> update_job_status ex_store ''zz'' FAILED ''2024-02-01T10:00:00'' = ex_store
   \<and> update_progress ex_store ''zz'' (Fin (1 / 2)) = ex_store
   \<and> fail_job ex_store ''zz'' ''boom'' ''2024-02-01T10:00:00'' = ex_store"
proof -
  have n: "''zz'' \<notin> fst ` set ex_store"
    by (simp add: ex_store_def)
  from unknown_job_id_no_op [OF n] n show ?thesis by blast
qed

lemma list_jobs_None:
  "list_jobs store status None
     = rev (sort_key job_created_at (rev (filter (matches status) (map snd store))))"
  by (cases status) (simp_all add: list_jobs_def matches_def [abs_def])

text \<open>
  C10. \<open>list_jobs\<close> with the limit 0 returns what it returns with no limit: all
  the jobs that match the status filter, newest first by \<open>created_at\<close>. A
  positive limit \<open>n\<close> keeps the first \<open>n\<close> of them.
\<close>

theorem list_jobs_limit_zero:
  "list_jobs store status (Some 0) = list_jobs store status None
   \<and> mset (list_jobs store status (Some 0)) = mset (filter (matches status) (map snd store))
   \<and> sorted (rev (map job_created_at (list_jobs store status (Some 0))))
   \<and> (\<forall>n. 0 < n \<longrightarrow>
         list_jobs store status (Some n) = take (nat n) (list_jobs store status None))"
proof -
  have z: "list_jobs store status (Some 0) = list_jobs store status None"
    by (simp add: list_jobs_def)
  have m: "mset (list_jobs store status None) = mset (filter (matches status) (map snd store))"
    by (simp add: list_jobs_None)
  have s: "sorted (rev (map job_created_at (list_jobs store status None)))"
    by (simp add: list_jobs_None rev_map)
  have t: "list_jobs store status (Some n) = take (nat n) (list_jobs store status None)"
    if "0 < n" for n
    using that by (simp add: list_jobs_def slice_to_def Let_def)
  from z m s t show ?thesis by simp
qed

theorem list_jobs_limit_zero_witness:
  "list_jobs ex_store None (Some 0)
     = [ex_job ''b'' RUNNING ''2024-02-01T09:00:00'' None,
        ex_job ''a'' COMPLETED ''2024-01-01T10:00:00'' (Some ''2024-01-01T10:05:00''),
        ex_job ''c'' CANCELLED ''2024-01-01T10:00:00'' (Some ''2024-01-01T10:05:00'')]
   \<and> (0::int) < 1
   \<and> list_jobs ex_store None (Some 1) = [ex_job ''b'' RUNNING ''2024-02-01T09:00:00'' None]"
proof -
  have a: "list_jobs ex_store None None
     = [ex_job ''b'' RUNNING ''2024-02-01T09:00:00'' None,
        ex_job ''a'' COMPLETED ''2024-01-01T10:00:00'' (Some ''2024-01-01T10:05:00''),
        ex_job ''c'' CANCELLED ''2024-01-01T10:00:00'' (Some ''2024-01-01T10:05:00'')]"
    by (simp add: list_jobs_def ex_store_def ex_job_def)
  from list_jobs_limit_zero [of ex_store None] a show ?thesis
    by simp
qed

lemma jobs_to_remove_expired:
  assumes "\<forall>(job_id, j)\<in>set jobs. job_status j \<in> set [COMPLETED, FAILED] \<longrightarrow> job_completed_at j \<noteq> None"
  shows "jobs_to_remove timestamp cutoff_time jobs
         = Inr (map fst (filter (\<lambda>(job_id, j). expired timestamp cutoff_time j) jobs))"
  using assms
proof (induction jobs)
  case Nil
  show ?case by simp
next
  case (Cons p jobs)
  obtain k j where p: "p = (k, j)" by (cases p)
  from Cons.prems have rest: "\<forall>(job_id, j)\<in>set jobs.
      job_status j \<in> set [COMPLETED, FAILED] \<longrightarrow> job_completed_at j \<noteq> None"
    by simp
  note ih = Cons.IH [OF rest]
  show ?case
  proof (cases "job_status j \<in> set [COMPLETED, FAILED]")
    case True
    with Cons.prems p obtain s where s: "job_completed_at j = Some s" by auto
    with True ih show ?thesis
      by (simp add: p expired_def)
  next
    case False
    with ih show ?thesis
      by (simp add: p expired_def)
  qed
qed

lemma foldl_delete:
  "foldl (\<lambda>js job_id. AList.delete job_id js) jobs ids
     = filter (\<lambda>(job_id, j). job_id \<notin> set ids) jobs"
proof (induction ids arbitrary: jobs)
  case Nil
  show ?case by simp
next
  case (Cons k ids)
  have "foldl (\<lambda>js job_id. AList.delete job_id js) jobs (k # ids)
        = filter (\<lambda>(job_id, j). job_id \<notin> set ids) (AList.delete k jobs)"
    by (simp add: Cons.IH)
  also have "\<dots> = filter (\<lambda>(job_id, j). job_id \<notin> set (k # ids)) jobs"
    unfolding AList.delete_eq by (auto simp: split_beta intro!: filter_cong)
  finally show ?case .
qed

lemma distinct_key_filter:
  assumes "distinct (map fst jobs)" and "(k, j) \<in> set jobs"
  shows "k \<in> set (map fst (filter (\<lambda>(job_id, j). P j) jobs)) \<longleftrightarrow> P j"
proof
  assume "k \<in> set (map fst (filter (\<lambda>(job_id, j). P j) jobs))"
  then obtain j' where j': "(k, j') \<in> set jobs" "P j'" by auto
  from assms(1) assms(2) j'(1) have "j = j'"
    by (rule eq_key_imp_eq_value)
  with j'(2) show "P j" by simp
next
  assume "P j"
  with assms(2) show "k \<in> set (map fst (filter (\<lambda>(job_id, j). P j) jobs))"
    by force
qed

text \<open>
  C8 (amended). For a registry in which every completed or failed job has its
  \<open>completed_at\<close>, and a cutoff that the clock reading and the age give, the
  sweep removes exactly the jobs whose status is \<open>COMPLETED\<close> or \<open>FAILED\<close> and
  whose \<open>completed_at\<close> is before the cutoff, returns their number, and leaves
  every other record, cancelled jobs among them, as it was and in place.
\<close>

theorem clear_completed_jobs_removes_expired:
  assumes "distinct (map fst jobs)"
    and "float_sub_int now_ts (older_than_hours * 3600) = Inr cutoff_time"
    and "\<forall>(job_id, j)\<in>set jobs.
           job_status j \<in> set [COMPLETED, FAILED] \<longrightarrow> job_completed_at j \<noteq> None"
  shows "clear_completed_jobs timestamp now_ts jobs older_than_hours
         = Inr (int (length (filter (\<lambda>(job_id, j). expired timestamp cutoff_time j) jobs)),
                filter (\<lambda>(job_id, j). \<not> expired timestamp cutoff_time j) jobs)"
proof -
  define ids where
    "ids = map fst (filter (\<lambda>(job_id, j). expired timestamp cutoff_time j) jobs)"
  have rem: "jobs_to_remove timestamp cutoff_time jobs = Inr ids"
    unfolding ids_def using assms(3) by (rule jobs_to_remove_expired)
  have "filter (\<lambda>(job_id, j). job_id \<notin> set ids) jobs
        = filter (\<lambda>(job_id, j). \<not> expired timestamp cutoff_time j) jobs"
  proof (rule filter_cong [OF refl])
    fix p assume p: "p \<in> set jobs"
    obtain k j where kj: "p = (k, j)" by (cases p)
    from distinct_key_filter [OF assms(1), of k j "expired timestamp cutoff_time"] p kj
    show "(case p of (job_id, j) \<Rightarrow> job_id \<notin> set ids)
          = (case p of (job_id, j) \<Rightarrow> \<not> expired timestamp cutoff_time j)"
      by (simp add: ids_def)
  qed
  then show ?thesis
    by (simp add: clear_completed_jobs_def assms(2) rem foldl_delete) (simp add: ids_def)
qed

lemma ex_cutoff: "float_sub_int (Fin 1706781600) (24 * 3600) = Inr (Fin 1706695200)"
  by (simp add: float_sub_int_def float_sub_def eval_float)

theorem clear_completed_jobs_removes_expired_witness:
  "distinct (map fst ex_store)
   \<and> float_sub_int (Fin 1706781600) (24 * 3600) = Inr (Fin 1706695200)
   \<and> clear_completed_jobs ex_timestamp (Fin 1706781600) ex_store 24
       = Inr (1, [(''b'', ex_job ''b'' RUNNING ''2024-02-01T09:00:00'' None),
                  (''c'', ex_job ''c'' CANCELLED ''2024-01-01T10:00:00''
                            (Some ''2024-01-01T10:05:00''))])"
proof -
  have d: "distinct (map fst ex_store)"
    by (simp add: ex_store_def)
  have c: "\<forall>(job_id, j)\<in>set ex_store.
         job_status j \<in> set [COMPLETED, FAILED] \<longrightarrow> job_completed_at j \<noteq> None"
    by (simp add: ex_store_def ex_job_def)
  from clear_completed_jobs_removes_expired [OF d ex_cutoff c, of ex_timestamp] d ex_cutoff
  show ?thesis
    by (simp add: ex_store_def ex_job_def expired_def ex_timestamp_def)
qed

text \<open>
  A cancelled job whose \<open>completed_at\<close> is a month before the sweep stays in the
  registry, and the sweep of a day's age counts no removal.
\<close>

theorem clear_completed_jobs_cancelled_counterexample:
  "clear_completed_jobs ex_timestamp (Fin 1706781600)
     [(''c'', ex_job ''c'' CANCELLED ''2024-01-01T10:00:00'' (Some ''2024-01-01T10:05:00''))] 24
   = Inr (0, [(''c'', ex_job ''c'' CANCELLED ''2024-01-01T10:00:00''
                        (Some ''2024-01-01T10:05:00''))])
   \<and> float_lt (ex_timestamp ''2024-01-01T10:05:00'') (Fin 1706695200)"
  by (simp add: clear_completed_jobs_def ex_cutoff [simplified] ex_job_def ex_timestamp_def)

end
